theory Spec2Isabelle
  imports Main "HOL-Library.Sublist"
begin

section \<open>Text: Python \<open>str\<close> operations\<close>

text \<open>
  A Python \<open>str\<close> is a sequence of code points. A code point of the embedding is one of
  the code points 0 to 255 (ASCII and Latin-1), or one of the two code points beyond them
  that the literals of the program hold: U+2013, the en dash in the prompt of
  \<open>srs_to_user_stories\<close>, and U+2022, the bullet in its class of list markers. Text with
  other code points is outside the model. On this range the character classes below are the
  ones of CPython: \<open>str.isspace\<close> (also the class \<open>\s\<close> of \<open>re\<close> and the characters removed
  by \<open>str.strip()\<close> and \<open>str.split()\<close>), the decimal digits \<open>\d\<close>, the line boundaries of
  \<open>str.splitlines()\<close> and the case mapping of \<open>str.lower()\<close>. The en dash and the bullet
  are neither whitespace, nor digits, nor line boundaries, nor letters with a case.
\<close>

datatype uchar = Ch char | EnDash | Bullet

type_synonym ustring = "uchar list"

text \<open>A literal of the source, written with characters of the range 0 to 255.\<close>

abbreviation str :: "string \<Rightarrow> ustring" where
  "str s \<equiv> map Ch s"

definition is_space :: "uchar \<Rightarrow> bool" where
  "is_space c \<longleftrightarrow> c \<in> {Ch (CHR 0x09), Ch (CHR 0x0A), Ch (CHR 0x0B), Ch (CHR 0x0C), Ch (CHR 0x0D),
                       Ch (CHR 0x1C), Ch (CHR 0x1D), Ch (CHR 0x1E), Ch (CHR 0x1F), Ch (CHR 0x20), Ch (CHR 0x85), Ch (CHR 0xA0)}"

definition is_digit :: "uchar \<Rightarrow> bool" where
  "is_digit c \<longleftrightarrow> c \<in> set (str ''0123456789'')"

definition is_linebreak :: "uchar \<Rightarrow> bool" where
  "is_linebreak c \<longleftrightarrow> c \<in> {Ch (CHR 0x0A), Ch (CHR 0x0B), Ch (CHR 0x0C), Ch (CHR 0x0D),
                           Ch (CHR 0x1C), Ch (CHR 0x1D), Ch (CHR 0x1E), Ch (CHR 0x85)}"

text \<open>
  \<open>str.lower()\<close> maps A-Z and the Latin-1 capitals U+00C0..U+00DE (U+00D7, the
  multiplication sign, is not a letter) to the character 32 places further; every other
  character of the range is unchanged.
\<close>

definition upper_chars :: "ustring" where
  "upper_chars = str ''ABCDEFGHIJKLMNOPQRSTUVWXYZ'' @
       [Ch (CHR 0xC0), Ch (CHR 0xC1), Ch (CHR 0xC2), Ch (CHR 0xC3), Ch (CHR 0xC4), Ch (CHR 0xC5), Ch (CHR 0xC6), Ch (CHR 0xC7),
        Ch (CHR 0xC8), Ch (CHR 0xC9), Ch (CHR 0xCA), Ch (CHR 0xCB), Ch (CHR 0xCC), Ch (CHR 0xCD), Ch (CHR 0xCE), Ch (CHR 0xCF),
        Ch (CHR 0xD0), Ch (CHR 0xD1), Ch (CHR 0xD2), Ch (CHR 0xD3), Ch (CHR 0xD4), Ch (CHR 0xD5), Ch (CHR 0xD6), Ch (CHR 0xD8),
        Ch (CHR 0xD9), Ch (CHR 0xDA), Ch (CHR 0xDB), Ch (CHR 0xDC), Ch (CHR 0xDD), Ch (CHR 0xDE)]"

definition lower_chars :: "ustring" where
  "lower_chars = str ''abcdefghijklmnopqrstuvwxyz'' @
       [Ch (CHR 0xE0), Ch (CHR 0xE1), Ch (CHR 0xE2), Ch (CHR 0xE3), Ch (CHR 0xE4), Ch (CHR 0xE5), Ch (CHR 0xE6), Ch (CHR 0xE7),
        Ch (CHR 0xE8), Ch (CHR 0xE9), Ch (CHR 0xEA), Ch (CHR 0xEB), Ch (CHR 0xEC), Ch (CHR 0xED), Ch (CHR 0xEE), Ch (CHR 0xEF),
        Ch (CHR 0xF0), Ch (CHR 0xF1), Ch (CHR 0xF2), Ch (CHR 0xF3), Ch (CHR 0xF4), Ch (CHR 0xF5), Ch (CHR 0xF6), Ch (CHR 0xF8),
        Ch (CHR 0xF9), Ch (CHR 0xFA), Ch (CHR 0xFB), Ch (CHR 0xFC), Ch (CHR 0xFD), Ch (CHR 0xFE)]"

definition lower_char :: "uchar \<Rightarrow> uchar" where
  "lower_char c = (case map_of (zip upper_chars lower_chars) c of None \<Rightarrow> c | Some d \<Rightarrow> d)"

definition lower :: "ustring \<Rightarrow> ustring" where
  "lower s = map lower_char s"

definition lstrip :: "ustring \<Rightarrow> ustring" where
  "lstrip s = dropWhile is_space s"

definition rstrip :: "ustring \<Rightarrow> ustring" where
  "rstrip s = rev (dropWhile is_space (rev s))"

text \<open>\<open>s.strip()\<close>\<close>

definition strip :: "ustring \<Rightarrow> ustring" where
  "strip s = rstrip (lstrip s)"

text \<open>\<open>s.split()\<close>: the maximal runs of non-whitespace characters.\<close>

fun split_acc :: "ustring \<Rightarrow> ustring \<Rightarrow> ustring list" where
  "split_acc cur [] = (if cur = [] then [] else [cur])"
| "split_acc cur (c # cs) =
     (if is_space c then (if cur = [] then split_acc [] cs else cur # split_acc [] cs)
      else split_acc (cur @ [c]) cs)"

definition split_ws :: "ustring \<Rightarrow> ustring list" where
  "split_ws s = split_acc [] s"

text \<open>\<open>sep.join(parts)\<close>\<close>

fun join :: "ustring \<Rightarrow> ustring list \<Rightarrow> ustring" where
  "join sep [] = []"
| "join sep [p] = p"
| "join sep (p # q # ps) = p @ sep @ join sep (q # ps)"

text \<open>\<open>" ".join(s.split())\<close>\<close>

definition collapse :: "ustring \<Rightarrow> ustring" where
  "collapse s = join (str '' '') (split_ws s)"

text \<open>
  \<open>s.splitlines()\<close>: the flag records that the previous character was a carriage return,
  whose following line feed belongs to the same line boundary.
\<close>

fun splitlines_acc :: "bool \<Rightarrow> ustring \<Rightarrow> ustring \<Rightarrow> ustring list" where
  "splitlines_acc cr cur [] = (if cur = [] then [] else [cur])"
| "splitlines_acc cr cur (c # cs) =
     (if cr \<and> c = Ch (CHR 0x0A) then splitlines_acc False cur cs
      else if is_linebreak c then cur # splitlines_acc (c = Ch (CHR 0x0D)) [] cs
      else splitlines_acc False (cur @ [c]) cs)"

definition splitlines :: "ustring \<Rightarrow> ustring list" where
  "splitlines s = splitlines_acc False [] s"

text \<open>\<open>sub in s\<close>\<close>

fun contains :: "ustring \<Rightarrow> ustring \<Rightarrow> bool" where
  "contains [] sub = (sub = [])"
| "contains (c # cs) sub = (prefix sub (c # cs) \<or> contains cs sub)"

text \<open>\<open>s.replace("\x00", "")\<close>\<close>

definition remove_nul :: "ustring \<Rightarrow> ustring" where
  "remove_nul s = filter (\<lambda>c. c \<noteq> Ch (CHR 0x00)) s"

text \<open>\<open>s.replace("**", "")\<close>: the occurrences are found from the left and do not overlap.\<close>

fun remove_bold :: "ustring \<Rightarrow> ustring" where
  "remove_bold (a # b # cs) =
     (if a = Ch (CHR ''*'') \<and> b = Ch (CHR ''*'') then remove_bold cs else a # remove_bold (b # cs))"
| "remove_bold cs = cs"


section \<open>The regular expressions of \<open>llm_client.py\<close>\<close>

text \<open>
  Each pattern is a function from the subject to the group the code reads, \<open>None\<close> when
  \<open>match\<close> fails. The subjects are lines of \<open>splitlines\<close>, which hold no line feed, so
  \<open>.\<close> matches every character and \<open>$\<close> only the end of the subject.
\<close>

text \<open>
  \<open>section_re = ^\s*(\d+)\.\s*(.+?)\s*$\<close>, group 2. After the period the greedy \<open>\s*\<close>
  takes the whitespace and the lazy \<open>.+?\<close> runs to the last character that is not
  whitespace; when only whitespace follows the period, \<open>\s*\<close> gives its last character
  back to \<open>.+?\<close>.
\<close>

definition section_re :: "ustring \<Rightarrow> ustring option" where
  "section_re line =
     (let s = dropWhile is_space line;
          ds = takeWhile is_digit s;
          r = dropWhile is_digit s
      in if ds = [] then None
         else case r of
           [] \<Rightarrow> None
         | c # r' \<Rightarrow>
             if c \<noteq> Ch (CHR ''.'') then None
             else (let body = rstrip (dropWhile is_space r')
                   in if body \<noteq> [] then Some body
                      else if r' \<noteq> [] then Some [last r']
                      else None))"

text \<open>\<open>bullet_re = ^\s*-\s+(.*\S)\s*$\<close>, group 1.\<close>

definition bullet_re :: "ustring \<Rightarrow> ustring option" where
  "bullet_re line =
     (case dropWhile is_space line of
        [] \<Rightarrow> None
      | c # r \<Rightarrow>
          if c \<noteq> Ch (CHR ''-'') then None
          else if r = [] \<or> \<not> is_space (hd r) then None
          else (let body = rstrip (dropWhile is_space r)
                in if body = [] then None else Some body))"

text \<open>
  \<open>strip_tag = \s*\[(?:Bug|Feature|Other)\]\s*$\<close> with \<open>re.I\<close>, as used in
  \<open>strip_tag.sub("", text)\<close>. A match ends at the end of the text, so there is at most
  one; the leftmost match starts at the whitespace before the opening bracket. Without a
  match the text is returned as it is.
\<close>

definition ends_with_ci :: "ustring \<Rightarrow> ustring \<Rightarrow> bool" where
  "ends_with_ci t pat \<longleftrightarrow>
     length pat \<le> length t \<and> lower (drop (length t - length pat) t) = pat"

definition cut_tag :: "ustring \<Rightarrow> ustring \<Rightarrow> ustring" where
  "cut_tag t pat = rstrip (take (length t - length pat) t)"

definition strip_tag_sub :: "ustring \<Rightarrow> ustring" where
  "strip_tag_sub text =
     (let t = rstrip text
      in if ends_with_ci t (str ''[bug]'') then cut_tag t (str ''[bug]'')
         else if ends_with_ci t (str ''[feature]'') then cut_tag t (str ''[feature]'')
         else if ends_with_ci t (str ''[other]'') then cut_tag t (str ''[other]'')
         else text)"

text \<open>
  The fallback pattern \<open>^\s*\d+(?:\.\d+)+\.?\s+(.*\S)$\<close>, group 1. \<open>dot_groups\<close> consumes
  the repetitions of \<open>\.\d+\<close> and counts them.
\<close>

function dot_groups :: "ustring \<Rightarrow> nat \<times> ustring" where
  "dot_groups [] = (0, [])"
| "dot_groups (c # r) =
     (if c = Ch (CHR ''.'') \<and> r \<noteq> [] \<and> is_digit (hd r)
      then map_prod Suc id (dot_groups (dropWhile is_digit r))
      else (0, c # r))"
  by pat_completeness auto
termination
  by (relation "measure length") (auto simp: less_Suc_eq_le length_dropWhile_le)

definition fallback_re :: "ustring \<Rightarrow> ustring option" where
  "fallback_re line =
     (let s = dropWhile is_space line;
          ds = takeWhile is_digit s;
          g = dot_groups (dropWhile is_digit s);
          t = (case snd g of [] \<Rightarrow> [] | c # u \<Rightarrow> if c = Ch (CHR ''.'') then u else c # u)
      in if ds = [] \<or> fst g = 0 then None
         else if t = [] \<or> \<not> is_space (hd t) then None
         else (let body = dropWhile is_space t
               in if body = [] \<or> is_space (last body) then None else Some body))"

section \<open>The Requirement Extractor: \<open>extract_requirement_lines\<close>\<close>

text \<open>
  The state of the first loop is the pair of \<open>current_section\<close> (\<open>None\<close> at first) and
  \<open>reqs\<close>. \<open>scan_line\<close> is one iteration of the loop body.
\<close>

type_synonym scan_state = "ustring option \<times> ustring list"

definition in_functional :: "ustring option \<Rightarrow> bool" where
  "in_functional current_section \<longleftrightarrow>
     (case current_section of
        None \<Rightarrow> False
      | Some sec \<Rightarrow> sec \<noteq> [] \<and> contains sec (str ''functional requirements''))"

definition scan_line :: "scan_state \<Rightarrow> ustring \<Rightarrow> scan_state" where
  "scan_line st raw =
     (let line = strip raw
      in if line = [] then st
         else case section_re line of
           Some g2 \<Rightarrow> (Some (lower (strip g2)), snd st)
         | None \<Rightarrow>
             if in_functional (fst st) then
               (case bullet_re line of
                  None \<Rightarrow> st
                | Some g1 \<Rightarrow>
                    (let item = collapse (strip (strip_tag_sub g1))
                     in if item \<noteq> [] then (fst st, snd st @ [item]) else st))
             else st)"

definition primary_scan :: "ustring list \<Rightarrow> scan_state" where
  "primary_scan lines = foldl scan_line (None, []) lines"

text \<open>The second loop, over the same lines, without any section.\<close>

fun fallback_scan :: "ustring list \<Rightarrow> ustring list" where
  "fallback_scan [] = []"
| "fallback_scan (raw # rest) =
     (case fallback_re (strip raw) of
        None \<Rightarrow> fallback_scan rest
      | Some g1 \<Rightarrow> collapse g1 # fallback_scan rest)"

text \<open>The last loop: \<open>seen\<close> is the set of lower-cased keys, \<open>out\<close> the list built so far.\<close>

fun dedup :: "ustring set \<Rightarrow> ustring list \<Rightarrow> ustring list \<Rightarrow> ustring list" where
  "dedup seen out [] = out"
| "dedup seen out (r # rs) =
     (let key = lower r
      in if key \<notin> seen then dedup (insert key seen) (out @ [r]) rs
         else dedup seen out rs)"

text \<open>
  The candidates before de-duplication: the bullets of the first loop, and the numbered
  lines when the first loop found none.
\<close>

definition candidates :: "ustring list \<Rightarrow> ustring list" where
  "candidates lines =
     (let reqs = snd (primary_scan lines)
      in if reqs = [] then
           (let numbered = fallback_scan lines
            in if numbered \<noteq> [] then numbered else reqs)
         else reqs)"

text \<open>
  The first three statements of the function. \<open>unicodedata.normalize("NFKC", s)\<close> is a
  table of the Unicode database and not code of this program: it is the parameter
  \<open>nfkc\<close>, and every theorem below holds for any function in its place.
\<close>

definition clean_srs :: "(ustring \<Rightarrow> ustring) \<Rightarrow> ustring \<Rightarrow> ustring" where
  "clean_srs nfkc srs_text = remove_bold (nfkc (remove_nul srs_text))"

definition extract_requirement_lines :: "(ustring \<Rightarrow> ustring) \<Rightarrow> ustring \<Rightarrow> ustring list" where
  "extract_requirement_lines nfkc srs_text =
     dedup {} [] (candidates (splitlines (clean_srs nfkc srs_text)))"

text \<open>
  NFKC normalisation leaves ASCII text as it is. The closed examples below are ASCII, and
  use this instance of the parameter.
\<close>

definition nfkc_ascii :: "ustring \<Rightarrow> ustring" where
  "nfkc_ascii s = s"


section \<open>The Story Synthesizer: \<open>srs_to_user_stories\<close>\<close>

text \<open>
  What a call can raise. \<open>str(e)\<close> of an exception is its message.
\<close>

datatype exn = TypeError ustring | RuntimeError ustring | RequestError ustring

fun message :: "exn \<Rightarrow> ustring" where
  "message (TypeError m) = m"
| "message (RuntimeError m) = m"
| "message (RequestError m) = m"

text \<open>
  The model backend is a parameter: for a prompt, either the exception that
  \<open>requests.post\<close>, \<open>raise_for_status\<close> or \<open>resp.json()\<close> raises, or the value of
  \<open>resp.json().get("response", "")\<close>. \<open>ask\<close> is \<open>_ask\<close>.
\<close>

type_synonym backend = "ustring \<Rightarrow> exn + ustring"

definition ask :: "backend \<Rightarrow> ustring \<Rightarrow> exn + ustring" where
  "ask backend prompt =
     (case backend prompt of Inl e \<Rightarrow> Inl e | Inr response \<Rightarrow> Inr (strip response))"

text \<open>The prompt; the word range is written with an en dash.\<close>

definition story_prompt :: "ustring list \<Rightarrow> ustring" where
  "story_prompt req_lines =
     str ''You are a requirements analyst.\<newline>'' @
     str ''Convert the following software requirements into concise user stories.\<newline>'' @
     str ''Each story must follow exactly: As a <type of user>, I want <goal> so that <reason>.\<newline>'' @
     str ''Do not invent features; do not merge or split items; one story per requirement.\<newline>'' @
     str ''Aim for 12'' @ [EnDash] @ str ''20 words per story.\<newline>\<newline>'' @
     str ''Requirements:\<newline>'' @
     join (str ''\<newline>'') (map (\<lambda>req. str ''- '' @ req) req_lines) @
     str ''\<newline>\<newline>Output as a numbered list:\<newline>'' @
     str ''1. As a ...\<newline>2. As a ...\<newline>''"

text \<open>\<open>[ln.strip() for ln in raw.splitlines() if ln.strip()]\<close>\<close>

definition reply_lines :: "ustring \<Rightarrow> ustring list" where
  "reply_lines raw = filter (\<lambda>ln. ln \<noteq> []) (map strip (splitlines raw))"

text \<open>
  \<open>re.sub(r"^[\d\.\-\)\(\s\<bullet>*]+", "", ln)\<close>: the leading run of digits, periods, hyphens,
  parentheses, whitespace, bullets (U+2022) and asterisks is removed.
\<close>

definition is_marker :: "uchar \<Rightarrow> bool" where
  "is_marker c \<longleftrightarrow> is_digit c \<or> c \<in> set (str ''.-)('') \<or> is_space c \<or> c = Bullet
                    \<or> c = Ch (CHR ''*'')"

definition strip_markers :: "ustring \<Rightarrow> ustring" where
  "strip_markers ln = dropWhile is_marker ln"

text \<open>\<open>ln.lower().startswith("as a ") and " i want " in ln.lower()\<close>\<close>

definition is_story :: "ustring \<Rightarrow> bool" where
  "is_story ln \<longleftrightarrow> prefix (str ''as a '') (lower ln) \<and> contains (lower ln) (str '' i want '')"

text \<open>The loop that fills \<open>stories\<close>.\<close>

fun collect_stories :: "ustring list \<Rightarrow> ustring list" where
  "collect_stories [] = []"
| "collect_stories (ln # rest) =
     (let ln' = strip_markers ln
      in if is_story ln' then take 280 (collapse ln') # collect_stories rest
         else collect_stories rest)"

text \<open>
  The last loop: a new story is appended, and the length of \<open>out\<close> is compared with
  \<open>max_stories\<close> after each element, appended or not.
\<close>

fun dedup_cap :: "int \<Rightarrow> ustring set \<Rightarrow> ustring list \<Rightarrow> ustring list \<Rightarrow> ustring list" where
  "dedup_cap max_stories seen out [] = out"
| "dedup_cap max_stories seen out (s # ss) =
     (let k = lower s;
          new = (k \<notin> seen);
          seen' = (if new then insert k seen else seen);
          out' = (if new then out @ [s] else out)
      in if int (length out') \<ge> max_stories then out'
         else dedup_cap max_stories seen' out' ss)"

definition parse_reply :: "int \<Rightarrow> ustring \<Rightarrow> ustring list" where
  "parse_reply max_stories raw =
     dedup_cap max_stories {} [] (collect_stories (reply_lines raw))"

text \<open>
  The result is paired with the prompts sent to the backend, in order.
\<close>

definition srs_to_user_stories ::
  "(ustring \<Rightarrow> ustring) \<Rightarrow> backend \<Rightarrow> ustring \<Rightarrow> int \<Rightarrow> (exn + ustring list) \<times> ustring list" where
  "srs_to_user_stories nfkc backend srs_text max_stories =
     (let req_lines = extract_requirement_lines nfkc srs_text
      in if req_lines = [] then (Inr [], [])
         else (let prompt = story_prompt req_lines
               in case ask backend prompt of
                    Inl e \<Rightarrow> (Inl e, [prompt])
                  | Inr raw \<Rightarrow> (Inr (parse_reply max_stories raw), [prompt])))"

section \<open>Upload cleanup of \<open>process_txt\<close>\<close>

text \<open>\<open>content.replace("\x00", "").strip()\<close>\<close>

definition final_cleanup :: "ustring \<Rightarrow> ustring" where
  "final_cleanup content = strip (remove_nul content)"


section \<open>The issue tracker client: \<open>jira_client.py\<close>\<close>

text \<open>The four settings read with \<open>os.getenv\<close>: \<open>None\<close> when a variable is not set.\<close>

record jira_env =
  JIRA_URL :: "ustring option"
  JIRA_EMAIL :: "ustring option"
  JIRA_API_TOKEN :: "ustring option"
  JIRA_PROJECT_KEY :: "ustring option"

text \<open>The request that \<open>create_issue\<close> posts: the URL and the fields of the payload.\<close>

record jira_request =
  url :: ustring
  project_key :: ustring
  req_summary :: ustring
  req_description :: ustring
  issuetype :: ustring
  req_labels :: "ustring list"

text \<open>
  The response: \<open>r.status_code\<close>, \<open>r.text\<close>, and \<open>r.json().get("key")\<close>, which raises when
  the body is not JSON.
\<close>

record http_response =
  status_code :: nat
  resp_text :: ustring
  json_key :: "exn + ustring option"

text \<open>
  The tracker is a parameter: for the requests sent before and the request sent now,
  either the exception that \<open>requests.post\<close> raises or the response.
\<close>

type_synonym tracker = "jira_request list \<Rightarrow> jira_request \<Rightarrow> exn + http_response"

text \<open>The dict returned by \<open>create_issue\<close>: with the keys "key" and "summary", or with "error".\<close>

datatype issue_result = Created "ustring option" ustring | Failed ustring

text \<open>\<open>all([...])\<close> asks every setting to be set and not empty.\<close>

definition truthy :: "ustring option \<Rightarrow> bool" where
  "truthy v \<longleftrightarrow> (case v of None \<Rightarrow> False | Some x \<Rightarrow> x \<noteq> [])"

definition check_env :: "jira_env \<Rightarrow> exn option" where
  "check_env env =
     (if truthy (JIRA_URL env) \<and> truthy (JIRA_EMAIL env) \<and> truthy (JIRA_API_TOKEN env)
         \<and> truthy (JIRA_PROJECT_KEY env)
      then None
      else Some (RuntimeError (str ''Missing one or more Jira environment variables.'')))"

definition clean_text :: "ustring \<Rightarrow> ustring" where
  "clean_text text = (if text = [] then [] else strip (remove_nul text))"

text \<open>\<open>str(n)\<close> of a status code, for the f-string of the error.\<close>

function str_nat :: "nat \<Rightarrow> ustring" where
  "str_nat n =
     (if n < 10 then [str ''0123456789'' ! n]
      else str_nat (n div 10) @ [str ''0123456789'' ! (n mod 10)])"
  by pat_completeness auto
termination
  by (relation "measure id") auto

text \<open>
  The body of \<open>create_issue(summary, description, labels)\<close>. The list of requests sent so far
  is the state: it is returned with the new request appended when one is sent.
\<close>

definition create_issue ::
  "jira_env \<Rightarrow> tracker \<Rightarrow> jira_request list \<Rightarrow> ustring \<Rightarrow> ustring \<Rightarrow> ustring list option
     \<Rightarrow> (exn + issue_result) \<times> jira_request list" where
  "create_issue env tracker sent summary description labels =
     (case check_env env of
        Some e \<Rightarrow> (Inl e, sent)
      | None \<Rightarrow>
          (let summary' = take 255 (clean_text summary);
               request = \<lparr> url = rev (dropWhile (\<lambda>c. c = Ch (CHR ''/'')) (rev (the (JIRA_URL env))))
                                  @ str ''/rest/api/3/issue'',
                           project_key = the (JIRA_PROJECT_KEY env),
                           req_summary = summary',
                           req_description = clean_text description,
                           issuetype = str ''Story'',
                           req_labels = (case labels of None \<Rightarrow> [] | Some ls \<Rightarrow> ls) \<rparr>
           in case tracker sent request of
                Inl e \<Rightarrow> (Inl e, sent @ [request])
              | Inr r \<Rightarrow>
                  if status_code r = 200 \<or> status_code r = 201 then
                    (case json_key r of
                       Inl e \<Rightarrow> (Inl e, sent @ [request])
                     | Inr k \<Rightarrow> (Inr (Created k summary'), sent @ [request]))
                  else (Inr (Failed (str ''Jira '' @ str_nat (status_code r) @ str '': '' @ resp_text r)),
                        sent @ [request])))"

text \<open>
  A call with keyword arguments. Python binds the arguments before the body runs: a
  keyword that is not a parameter of \<open>create_issue\<close> raises \<open>TypeError\<close>, and so does a
  call without \<open>summary\<close>; \<open>description\<close> and \<open>labels\<close> have defaults.
\<close>

datatype kwarg = KStr ustring | KList "ustring list"

definition call_create_issue ::
  "jira_env \<Rightarrow> tracker \<Rightarrow> jira_request list \<Rightarrow> (ustring \<times> kwarg) list
     \<Rightarrow> (exn + issue_result) \<times> jira_request list" where
  "call_create_issue env tracker sent kwargs =
     (case filter (\<lambda>k. k \<notin> set [str ''summary'', str ''description'', str ''labels'']) (map fst kwargs) of
        k # ks \<Rightarrow>
          (Inl (TypeError (str ''create_issue() got an unexpected keyword argument ''
                             @ [Ch (CHR 0x27)] @ k @ [Ch (CHR 0x27)])), sent)
      | [] \<Rightarrow>
          (case map_of kwargs (str ''summary'') of
             Some (KStr summary) \<Rightarrow>
               create_issue env tracker sent summary
                 (case map_of kwargs (str ''description'') of Some (KStr d) \<Rightarrow> d | _ \<Rightarrow> [])
                 (case map_of kwargs (str ''labels'') of Some (KList ls) \<Rightarrow> Some ls | _ \<Rightarrow> None)
           | _ \<Rightarrow>
               (Inl (TypeError (str ''create_issue() missing 1 required positional argument: ''
                                  @ [Ch (CHR 0x27)] @ str ''summary'' @ [Ch (CHR 0x27)])), sent)))"

section \<open>The batch endpoints of \<open>main.py\<close>\<close>

text \<open>
  What an endpoint returns: the dict with "error", or the dict with "created" and
  "failed". A created entry is the pair of key and summary, a failed entry the pair of title
  (or summary) and error message.
\<close>

datatype reply = ErrorObj ustring | Batch "(ustring option \<times> ustring) list" "(ustring \<times> ustring) list"

text \<open>
  An item of a payload is a JSON object with string values: a map from field names to
  strings, \<open>None\<close> for a field that is absent or null. \<open>it.get(f) or d\<close> is \<open>get_or\<close>.
\<close>

type_synonym item = "ustring \<rightharpoonup> ustring"

definition get_or :: "item \<Rightarrow> ustring \<Rightarrow> ustring \<Rightarrow> ustring" where
  "get_or it f d = (case it f of None \<Rightarrow> d | Some v \<Rightarrow> if v = [] then d else v)"

text \<open>The loop of \<open>jira_send_selected\<close>; an exception of \<open>create_issue\<close> is not caught.\<close>

fun send_selected_loop ::
  "jira_env \<Rightarrow> tracker \<Rightarrow> item list \<Rightarrow> (ustring option \<times> ustring) list \<Rightarrow> (ustring \<times> ustring) list
     \<Rightarrow> jira_request list \<Rightarrow> (exn + reply) \<times> jira_request list" where
  "send_selected_loop env tracker [] created failed sent = (Inr (Batch created failed), sent)"
| "send_selected_loop env tracker (it # rest) created failed sent =
     (let story = strip (get_or it (str ''user_story'') []);
          classification = get_or it (str ''classification'') (str ''Feature'')
      in if story = [] then
           send_selected_loop env tracker rest created (failed @ [([], str ''Empty story'')]) sent
         else
           (case call_create_issue env tracker sent
                   [(str ''summary'', KStr story), (str ''description'', KStr story),
                    (str ''classification'', KStr classification)] of
              (Inl e, sent') \<Rightarrow> (Inl e, sent')
            | (Inr (Created k s), sent') \<Rightarrow>
                send_selected_loop env tracker rest (created @ [(k, s)]) failed sent'
            | (Inr (Failed err), sent') \<Rightarrow>
                send_selected_loop env tracker rest created (failed @ [(story, err)]) sent'))"

text \<open>\<open>jira_send_selected\<close>, on the value of \<open>payload.get("stories", [])\<close>.\<close>

definition jira_send_selected ::
  "jira_env \<Rightarrow> tracker \<Rightarrow> item list \<Rightarrow> (exn + reply) \<times> jira_request list" where
  "jira_send_selected env tracker items =
     (if items = [] then (Inr (ErrorObj (str ''No stories provided'')), [])
      else if length items > 10 then
        (Inr (ErrorObj (str ''Cannot send more than 10 stories at once'')), [])
      else send_selected_loop env tracker items [] [] [])"

text \<open>\<open>labels_for_item(kind, subtype)\<close>\<close>

definition labels_for_item :: "ustring \<Rightarrow> ustring option \<Rightarrow> ustring list" where
  "labels_for_item kind subtype =
     (let k = lower kind
      in if k = str ''bug'' then [str ''bug'']
         else if k \<in> set [str ''feature'', str ''fr'', str ''functional requirement''] then [str ''feature'']
         else if k \<in> set [str ''nfr'', str ''non-functional requirement''] then
           [str ''nfr''] @
           (case subtype of
              None \<Rightarrow> []
            | Some st \<Rightarrow>
                if st = [] then []
                else [str ''nfr-'' @ map (\<lambda>c. if c = Ch (CHR '' '') then Ch (CHR ''-'') else c) (lower st)])
         else [str ''other''])"

text \<open>The loop of \<open>jira_send_selected_classifications\<close>.\<close>

fun send_classifications_loop ::
  "jira_env \<Rightarrow> tracker \<Rightarrow> item list \<Rightarrow> (ustring option \<times> ustring) list \<Rightarrow> (ustring \<times> ustring) list
     \<Rightarrow> jira_request list \<Rightarrow> (exn + reply) \<times> jira_request list" where
  "send_classifications_loop env tracker [] created failed sent =
     (Inr (Batch created failed), sent)"
| "send_classifications_loop env tracker (it # rest) created failed sent =
     (let summary = strip (get_or it (str ''review'') [])
      in if summary = [] then
           send_classifications_loop env tracker rest created
             (failed @ [([], str ''Empty review'')]) sent
         else
           (let kind = get_or it (str ''classification'') (get_or it (str ''fr_nfr'') (str ''Feature''));
                subtype = it (str ''subtype'');
                labels = labels_for_item kind subtype;
                pre = (if str ''bug'' \<in> set labels then str ''[BUG]''
                       else if str ''nfr'' \<in> set labels then str ''[NFR]'' else str ''[FEATURE]'')
            in case call_create_issue env tracker sent
                    [(str ''summary'', KStr (pre @ str '' '' @ summary)),
                     (str ''description'', KStr (get_or it (str ''reasoning'') summary)),
                     (str ''labels'', KList labels)] of
                 (Inl e, sent') \<Rightarrow> (Inl e, sent')
               | (Inr (Created k s), sent') \<Rightarrow>
                   send_classifications_loop env tracker rest (created @ [(k, s)]) failed sent'
               | (Inr (Failed err), sent') \<Rightarrow>
                   send_classifications_loop env tracker rest created
                     (failed @ [(summary, err)]) sent'))"

text \<open>\<open>jira_send_selected_classifications\<close>, on the value of \<open>payload.get("items", [])\<close>.\<close>

definition jira_send_selected_classifications ::
  "jira_env \<Rightarrow> tracker \<Rightarrow> item list \<Rightarrow> (exn + reply) \<times> jira_request list" where
  "jira_send_selected_classifications env tracker items =
     (if items = [] then (Inr (ErrorObj (str ''No items provided'')), [])
      else if length items > 10 then
        (Inr (ErrorObj (str ''Cannot send more than 10 items at once'')), [])
      else send_classifications_loop env tracker items [] [] [])"

text \<open>
  \<open>jira_create\<close>, on the items of a \<open>JiraRequest\<close>. Here the exception of \<open>create_issue\<close> is
  caught, item by item.
\<close>

record jira_item =
  review :: ustring
  classification :: ustring
  reasoning :: "ustring option"

fun jira_create_loop ::
  "jira_env \<Rightarrow> tracker \<Rightarrow> jira_item list \<Rightarrow> (issue_result \<times> ustring) list \<Rightarrow> (ustring \<times> ustring) list
     \<Rightarrow> jira_request list
     \<Rightarrow> ((issue_result \<times> ustring) list \<times> (ustring \<times> ustring) list) \<times> jira_request list" where
  "jira_create_loop env tracker [] created failed sent = ((created, failed), sent)"
| "jira_create_loop env tracker (it # rest) created failed sent =
     (let itype = (if classification it = str ''Bug'' then str ''Bug''
                   else if classification it = str ''Feature'' then str ''Story'' else str ''Task'')
      in case call_create_issue env tracker sent
              [(str ''summary'', KStr (review it)),
               (str ''description'', KStr (case reasoning it of None \<Rightarrow> []
                                        | Some r \<Rightarrow> r)),
               (str ''issuetype'', KStr itype)] of
           (Inl e, sent') \<Rightarrow>
             jira_create_loop env tracker rest created (failed @ [(review it, message e)]) sent'
         | (Inr key, sent') \<Rightarrow>
             jira_create_loop env tracker rest (created @ [(key, review it)]) failed sent')"

definition jira_create ::
  "jira_env \<Rightarrow> tracker \<Rightarrow> jira_item list
     \<Rightarrow> ((issue_result \<times> ustring) list \<times> (ustring \<times> ustring) list) \<times> jira_request list" where
  "jira_create env tracker items = jira_create_loop env tracker items [] [] []"

text \<open>A configured environment and a tracker that creates every issue, for the examples.\<close>

definition demo_env :: "jira_env" where
  "demo_env = \<lparr> JIRA_URL = Some (str ''https://jira.example/''), JIRA_EMAIL = Some (str ''dev@example''),
                 JIRA_API_TOKEN = Some (str ''token''), JIRA_PROJECT_KEY = Some (str ''REQ'') \<rparr>"

definition demo_tracker :: "tracker" where
  "demo_tracker sent request =
     Inr \<lparr> status_code = 201, resp_text = [],
           json_key = Inr (Some (str ''REQ-'' @ str_nat (Suc (length sent)))) \<rparr>"


section \<open>De-duplication as the specification words it\<close>

text \<open>
  "Keeping first occurrence, preserving relative order", with identity up to case: the
  first element is kept, and every later element with the same lower-cased form is dropped.
\<close>

fun keep_first :: "ustring list \<Rightarrow> ustring list" where
  "keep_first [] = []"
| "keep_first (r # rs) = r # keep_first (filter (\<lambda>x. lower x \<noteq> lower r) rs)"

section \<open>Data of the examples\<close>

text \<open>Sixty stories of different lengths, and a backend whose reply holds two stories.\<close>

definition sixty_stories :: "ustring list" where
  "sixty_stories = map (\<lambda>n. str ''As a user, I want '' @ replicate n (Ch (CHR ''x''))) [1..<61]"

definition two_story_backend :: "backend" where
  "two_story_backend prompt =
     Inr (str ''1. As a user, I want to log in.\<newline>2. As a user, I want to log out.'')"

section \<open>Evaluation and basic facts about trimming\<close>

lemmas text_eval = is_space_def is_digit_def is_linebreak_def lower_def lower_char_def
  upper_chars_def lower_chars_def lstrip_def rstrip_def strip_def split_ws_def collapse_def
  splitlines_def remove_nul_def

lemmas extract_eval = section_re_def bullet_re_def ends_with_ci_def cut_tag_def
  strip_tag_sub_def fallback_re_def in_functional_def scan_line_def primary_scan_def
  candidates_def clean_srs_def extract_requirement_lines_def nfkc_ascii_def

lemma rstrip_append: "\<exists>w. s = rstrip s @ w \<and> (\<forall>c\<in>set w. is_space c)"
proof -
  have "rstrip s @ rev (takeWhile is_space (rev s)) =
          rev (takeWhile is_space (rev s) @ dropWhile is_space (rev s))"
    by (simp only: rev_append rstrip_def)
  also have "\<dots> = s"
    by (simp only: takeWhile_dropWhile_id rev_rev_ident)
  finally have "s = rstrip s @ rev (takeWhile is_space (rev s))"
    by (rule sym)
  moreover have "\<forall>c\<in>set (rev (takeWhile is_space (rev s))). is_space c"
    by (auto dest: set_takeWhileD)
  ultimately show ?thesis by blast
qed

lemma rstrip_last: "rstrip s \<noteq> [] \<Longrightarrow> \<not> is_space (last (rstrip s))"
  unfolding rstrip_def by (simp add: last_rev hd_dropWhile)

lemma rstrip_id: "s = [] \<or> \<not> is_space (last s) \<Longrightarrow> rstrip s = s"
  unfolding rstrip_def by (cases "rev s") (auto simp: last_rev rev_swap)

lemma lstrip_id: "s = [] \<or> \<not> is_space (hd s) \<Longrightarrow> lstrip s = s"
  unfolding lstrip_def by (cases s) auto

lemma strip_hd: "strip s \<noteq> [] \<Longrightarrow> \<not> is_space (hd (strip s))"
proof -
  assume ne: "strip s \<noteq> []"
  obtain w where w: "lstrip s = rstrip (lstrip s) @ w" using rstrip_append by blast
  from ne have "hd (lstrip s) = hd (strip s)"
    using w by (metis hd_append2 strip_def)
  moreover have "lstrip s \<noteq> []" using ne w by (auto simp: strip_def)
  then have "\<not> is_space (hd (lstrip s))" unfolding lstrip_def by (rule hd_dropWhile)
  ultimately show ?thesis by simp
qed

lemma strip_last: "strip s \<noteq> [] \<Longrightarrow> \<not> is_space (last (strip s))"
  unfolding strip_def by (rule rstrip_last)

lemma strip_id: "s = [] \<or> (\<not> is_space (hd s) \<and> \<not> is_space (last s)) \<Longrightarrow> strip s = s"
  unfolding strip_def by (auto simp: lstrip_id rstrip_id)

lemma strip_strip: "strip (strip s) = strip s"
  by (rule strip_id) (use strip_hd strip_last in blast)

section \<open>Section headings (C1)\<close>

lemma digit_not_space: "is_digit c \<Longrightarrow> \<not> is_space c"
  by (auto simp: is_digit_def is_space_def)

lemma dot_not_digit: "\<not> is_digit (Ch (CHR ''.''))"
  by (simp add: is_digit_def)

lemma digits_prefix:
  assumes "\<forall>c\<in>set ds. is_digit c"
  shows "takeWhile is_digit (ds @ Ch (CHR ''.'') # rest) = ds"
    and "dropWhile is_digit (ds @ Ch (CHR ''.'') # rest) = Ch (CHR ''.'') # rest"
  using assms by (simp_all add: takeWhile_append2 dropWhile_append2 dot_not_digit)

lemma strip_nonempty: "rest \<noteq> [] \<Longrightarrow> \<not> is_space (last rest) \<Longrightarrow> strip rest \<noteq> []"
proof -
  assume ne: "rest \<noteq> []" and l: "\<not> is_space (last rest)"
  have "last rest \<in> set rest" using ne by simp
  then have d: "dropWhile is_space rest \<noteq> []" using l by (auto simp: dropWhile_eq_Nil_conv)
  have "rest = takeWhile is_space rest @ dropWhile is_space rest" by simp
  then have "last rest = last (dropWhile is_space rest)" using d by (metis last_appendR)
  then have "rstrip (dropWhile is_space rest) = dropWhile is_space rest"
    using l by (intro rstrip_id) simp
  then show ?thesis using d by (simp add: strip_def lstrip_def)
qed

lemma section_re_shape:
  "section_re line \<noteq> None \<longleftrightarrow>
     (\<exists>ds rest. dropWhile is_space line = ds @ Ch (CHR ''.'') # rest \<and> ds \<noteq> [] \<and>
                (\<forall>c\<in>set ds. is_digit c) \<and> rest \<noteq> [])"
proof
  assume m: "section_re line \<noteq> None"
  define s where "s = dropWhile is_space line"
  have ds: "takeWhile is_digit s \<noteq> []"
    using m by (auto simp: section_re_def s_def Let_def)
  obtain r' where r: "dropWhile is_digit s = Ch (CHR ''.'') # r'"
    using m ds by (auto simp: section_re_def s_def Let_def split: list.splits if_splits)
  have "r' \<noteq> []"
    using m ds r by (auto simp: section_re_def s_def Let_def rstrip_def split: if_splits)
  moreover have "s = takeWhile is_digit s @ Ch (CHR ''.'') # r'"
    using r by (metis takeWhile_dropWhile_id)
  moreover have "\<forall>c\<in>set (takeWhile is_digit s). is_digit c"
    by (auto dest: set_takeWhileD)
  ultimately show "\<exists>ds rest. dropWhile is_space line = ds @ Ch (CHR ''.'') # rest \<and> ds \<noteq> [] \<and>
                (\<forall>c\<in>set ds. is_digit c) \<and> rest \<noteq> []"
    using ds unfolding s_def by blast
next
  assume "\<exists>ds rest. dropWhile is_space line = ds @ Ch (CHR ''.'') # rest \<and> ds \<noteq> [] \<and>
                (\<forall>c\<in>set ds. is_digit c) \<and> rest \<noteq> []"
  then obtain ds rest where s: "dropWhile is_space line = ds @ Ch (CHR ''.'') # rest"
    and ds: "ds \<noteq> []" "\<forall>c\<in>set ds. is_digit c" and rest: "rest \<noteq> []"
    by blast
  have tw: "takeWhile is_digit (ds @ Ch (CHR ''.'') # rest) = ds"
    and dw: "dropWhile is_digit (ds @ Ch (CHR ''.'') # rest) = Ch (CHR ''.'') # rest"
    using ds(2) by (rule digits_prefix)+
  show "section_re line \<noteq> None"
    unfolding section_re_def s Let_def tw dw using ds(1) rest by simp
qed

lemma section_re_value:
  assumes s: "line = ds @ Ch (CHR ''.'') # rest" and ds: "ds \<noteq> []" "\<forall>c\<in>set ds. is_digit c"
    and rest: "rest \<noteq> []" "\<not> is_space (last rest)"
  shows "section_re line = Some (strip rest)"
proof -
  have tw: "takeWhile is_digit (ds @ Ch (CHR ''.'') # rest) = ds"
    and dw: "dropWhile is_digit (ds @ Ch (CHR ''.'') # rest) = Ch (CHR ''.'') # rest"
    using ds(2) by (rule digits_prefix)+
  obtain d ds' where d: "ds = d # ds'" using ds(1) by (cases ds) auto
  then have "\<not> is_space d" using ds(2) by (simp add: digit_not_space)
  then have sp: "dropWhile is_space (ds @ Ch (CHR ''.'') # rest) = ds @ Ch (CHR ''.'') # rest"
    by (simp add: d)
  have ne: "rstrip (dropWhile is_space rest) \<noteq> []"
    using strip_nonempty [OF rest] by (simp add: strip_def lstrip_def)
  show ?thesis
    unfolding section_re_def s Let_def sp tw dw using ds(1) ne
    by (simp add: strip_def lstrip_def)
qed

text \<open>
  C1, as amended. In the first loop a line is a section heading exactly when, trimmed, it is
  one or more decimal digits, a period and at least one more character. Such a line sets
  \<open>current_section\<close> to the trimmed, lower-cased text after the period and adds no
  candidate; no other line changes \<open>current_section\<close>. Nothing excludes a digit after the
  period, so a multi-level numbered line has the shape of a heading.
\<close>

theorem heading_shape:
  "(section_re (strip raw) \<noteq> None \<longleftrightarrow>
      (\<exists>ds rest. strip raw = ds @ Ch (CHR ''.'') # rest \<and> ds \<noteq> [] \<and>
                 (\<forall>c\<in>set ds. is_digit c) \<and> rest \<noteq> []))
   \<and> (\<forall>ds rest. strip raw = ds @ Ch (CHR ''.'') # rest \<and> ds \<noteq> [] \<and>
                  (\<forall>c\<in>set ds. is_digit c) \<and> rest \<noteq> []
         \<longrightarrow> scan_line st raw = (Some (lower (strip rest)), snd st))
   \<and> (section_re (strip raw) = None \<longrightarrow> fst (scan_line st raw) = fst st)"
proof (intro conjI allI impI)
  have "dropWhile is_space (strip raw) = strip raw"
    using lstrip_id [of "strip raw"] strip_hd [of raw] by (auto simp: lstrip_def)
  then show "section_re (strip raw) \<noteq> None \<longleftrightarrow>
      (\<exists>ds rest. strip raw = ds @ Ch (CHR ''.'') # rest \<and> ds \<noteq> [] \<and>
                 (\<forall>c\<in>set ds. is_digit c) \<and> rest \<noteq> [])"
    using section_re_shape [of "strip raw"] by simp
next
  fix ds rest
  assume a: "strip raw = ds @ Ch (CHR ''.'') # rest \<and> ds \<noteq> [] \<and>
                  (\<forall>c\<in>set ds. is_digit c) \<and> rest \<noteq> []"
  then have ne: "strip raw \<noteq> []" by auto
  have "last (strip raw) = last rest" using a by simp
  then have "\<not> is_space (last rest)" using strip_last [OF ne] by simp
  then have "section_re (strip raw) = Some (strip rest)"
    using a by (intro section_re_value) auto
  then show "scan_line st raw = (Some (lower (strip rest)), snd st)"
    using ne by (simp add: scan_line_def Let_def strip_strip)
next
  assume "section_re (strip raw) = None"
  then show "fst (scan_line st raw) = fst st"
    by (simp add: scan_line_def Let_def split: option.splits)
qed

theorem heading_shape_witness:
  "strip (str ''  3. Functional Requirements '') = str ''3'' @ Ch (CHR ''.'') # str '' Functional Requirements''
   \<and> scan_line (None, []) (str ''  3. Functional Requirements '') = (Some (str ''functional requirements''), [])
   \<and> section_re (strip (str ''- Add login'')) = None
   \<and> fst (scan_line (Some (str ''functional requirements''), []) (str ''- Add login''))
        = Some (str ''functional requirements'')"
proof -
  have s: "strip (str ''  3. Functional Requirements '') = str ''3'' @ Ch (CHR ''.'') # str '' Functional Requirements''"
    by (simp add: text_eval)
  have d: "\<forall>c\<in>set (str ''3''). is_digit c" by (simp add: is_digit_def)
  have "scan_line (None, []) (str ''  3. Functional Requirements '')
          = (Some (lower (strip (str '' Functional Requirements''))), snd (None :: ustring option, []))"
    by (rule heading_shape [of "str ''  3. Functional Requirements ''" "(None, [])",
          THEN conjunct2, THEN conjunct1, rule_format,
          of "str ''3''" "str '' Functional Requirements''"]) (use s d in simp)
  then have h: "scan_line (None, []) (str ''  3. Functional Requirements '')
          = (Some (str ''functional requirements''), [])"
    by (simp add: text_eval)
  have n: "section_re (strip (str ''- Add login'')) = None"
    by (simp add: text_eval section_re_def)
  have "fst (scan_line (Some (str ''functional requirements''), []) (str ''- Add login''))
          = fst (Some (str ''functional requirements''), [] :: ustring list)"
    by (rule heading_shape [of "str ''- Add login''" "(Some (str ''functional requirements''), [])",
          THEN conjunct2, THEN conjunct2, rule_format]) (rule n)
  then show ?thesis using s h n by simp
qed

text \<open>
  C1 as stated fails: the line \<open>1.1 Foo\<close> matches the heading pattern with the text
  \<open>1 Foo\<close>, replaces the current section, and the bullet after it is no longer captured.
\<close>

theorem multilevel_line_sets_section:
  "section_re (str ''1.1 Foo'') = Some (str ''1 Foo'')
   \<and> scan_line (Some (str ''functional requirements''), []) (str ''1.1 Foo'') = (Some (str ''1 foo''), [])
   \<and> extract_requirement_lines nfkc_ascii
        (str ''3. Functional Requirements\<newline>1.1 Foo\<newline>- Add login'') = [str ''Foo'']"
  by (simp add: text_eval extract_eval)

section \<open>Trailing tags of a bullet (C2)\<close>

lemma space_not_upper: "is_space c \<Longrightarrow> c \<notin> set upper_chars"
  unfolding is_space_def upper_chars_def by (elim insertE emptyE; simp)

lemma lower_char_space: "is_space c \<Longrightarrow> lower_char c = c"
proof -
  assume "is_space c"
  then have "c \<notin> set upper_chars" by (rule space_not_upper)
  moreover have "length upper_chars = length lower_chars"
    by (simp add: upper_chars_def lower_chars_def)
  then have "fst ` set (zip upper_chars lower_chars) = set upper_chars"
    by (metis map_fst_zip set_map)
  ultimately have "map_of (zip upper_chars lower_chars) c = None"
    by (simp add: map_of_eq_None_iff)
  then show ?thesis by (simp add: lower_char_def)
qed

lemma length_lower [simp]: "length (lower s) = length s"
  by (simp add: lower_def)

lemma lower_last_not_space:
  assumes "lower tag = pat" "pat \<noteq> []" "\<not> is_space (last pat)"
  shows "tag \<noteq> [] \<and> \<not> is_space (last tag)"
proof -
  have ne: "tag \<noteq> []" using assms by (auto simp: lower_def)
  then have "last (map lower_char tag) = lower_char (last tag)"
    by (rule last_map)
  then have "last pat = lower_char (last tag)"
    using assms(1) by (simp add: lower_def)
  then show ?thesis using ne assms(3) lower_char_space by force 
qed

lemma ends_with_ci_append: "lower tag = pat \<Longrightarrow> ends_with_ci (pre @ tag) pat"
proof -
  assume l: "lower tag = pat"
  then have "length pat = length tag" by (auto simp: lower_def)
  then show ?thesis using l by (simp add: ends_with_ci_def)
qed

lemma ends_with_ci_penult:
  assumes "ends_with_ci t pat" "2 \<le> length pat"
  shows "lower_char (t ! (length t - 2)) = pat ! (length pat - 2)"
proof -
  define n where "n = length t - length pat"
  have len: "length pat \<le> length t" and eq: "lower (drop n t) = pat"
    using assms(1) by (auto simp: ends_with_ci_def n_def)
  have "length (drop n t) = length pat" using len by (simp add: n_def)
  then have "length pat - 2 < length (drop n t)" using assms(2) by simp
  then have "lower (drop n t) ! (length pat - 2) = lower_char (drop n t ! (length pat - 2))"
    by (simp add: lower_def)
  then have "pat ! (length pat - 2) = lower_char (drop n t ! (length pat - 2))"
    by (simp add: eq)
  also have "drop n t ! (length pat - 2) = t ! (n + (length pat - 2))"
    using len by (simp add: n_def)
  also have "n + (length pat - 2) = length t - 2"
    using len assms(2) by (simp add: n_def)
  finally show ?thesis by simp
qed

lemma tag_distinct:
  assumes "lower tag = pat" "ends_with_ci (pre @ tag) pat'" "2 \<le> length pat" "2 \<le> length pat'"
  shows "pat ! (length pat - 2) = pat' ! (length pat' - 2)"
  using ends_with_ci_penult [OF ends_with_ci_append [OF assms(1), of pre] assms(3)]
        ends_with_ci_penult [OF assms(2) assms(4)] by simp

lemma cut_tag_append: "lower tag = pat \<Longrightarrow> cut_tag (pre @ tag) pat = rstrip pre"
proof -
  assume l: "lower tag = pat"
  then have "length pat = length tag" by (auto simp: lower_def)
  then show ?thesis by (simp add: cut_tag_def)
qed

lemma strip_tag_sub_tag:
  assumes "lower tag \<in> {str ''[bug]'', str ''[feature]'', str ''[other]''}"
  shows "strip_tag_sub (pre @ tag) = rstrip pre"
proof -
  have sp: "\<not> is_space (Ch (CHR '']''))" by (simp add: is_space_def)
  have "lower tag \<noteq> [] \<and> \<not> is_space (last (lower tag))"
    using assms sp by auto
  then have "tag \<noteq> [] \<and> \<not> is_space (last tag)"
    by (intro lower_last_not_space [of tag "lower tag"]) simp_all
  then have r: "rstrip (pre @ tag) = pre @ tag"
    by (intro rstrip_id) simp
  consider (b) "lower tag = str ''[bug]''" | (f) "lower tag = str ''[feature]''" | (o) "lower tag = str ''[other]''"
    using assms by auto
  then show ?thesis
  proof cases
    case b
    then show ?thesis
      by (simp add: strip_tag_sub_def r ends_with_ci_append cut_tag_append)
  next
    case f
    have "\<not> ends_with_ci (pre @ tag) (str ''[bug]'')"
      using tag_distinct [OF f, of pre "str ''[bug]''"] by auto
    then show ?thesis using f
      by (simp add: strip_tag_sub_def r ends_with_ci_append cut_tag_append)
  next
    case o
    have "\<not> ends_with_ci (pre @ tag) (str ''[bug]'')"
      using tag_distinct [OF o, of pre "str ''[bug]''"] by auto
    moreover have "\<not> ends_with_ci (pre @ tag) (str ''[feature]'')"
      using tag_distinct [OF o, of pre "str ''[feature]''"] by auto
    ultimately show ?thesis using o
      by (simp add: strip_tag_sub_def r ends_with_ci_append cut_tag_append)
  qed
qed

lemma ends_with_ci_split: "ends_with_ci t pat \<Longrightarrow> \<exists>a b. t = a @ b \<and> lower b = pat"
  unfolding ends_with_ci_def by (metis append_take_drop_id)

lemma strip_tag_sub_changes:
  assumes "strip_tag_sub text \<noteq> text"
  shows "\<exists>pre tag w. text = pre @ tag @ w \<and> lower tag \<in> {str ''[bug]'', str ''[feature]'', str ''[other]''}
            \<and> (\<forall>c\<in>set w. is_space c)"
proof -
  obtain w where w: "text = rstrip text @ w" "\<forall>c\<in>set w. is_space c"
    using rstrip_append by blast
  have "ends_with_ci (rstrip text) (str ''[bug]'') \<or> ends_with_ci (rstrip text) (str ''[feature]'')
          \<or> ends_with_ci (rstrip text) (str ''[other]'')"
    using assms by (auto simp: strip_tag_sub_def Let_def split: if_splits)
  then obtain a b where "rstrip text = a @ b" "lower b \<in> {str ''[bug]'', str ''[feature]'', str ''[other]''}"
    using ends_with_ci_split by blast
  then show ?thesis using w by (metis append.assoc)
qed

lemma rstrip_trailing:
  assumes "\<forall>c\<in>set w. is_space c" "x \<noteq> []" "\<not> is_space (last x)"
  shows "rstrip (x @ w) = x"
proof -
  have "dropWhile is_space (rev w @ rev x) = dropWhile is_space (rev x)"
    using assms(1) by (intro dropWhile_append2) simp
  then have "rstrip (x @ w) = rstrip x" by (simp add: rstrip_def)
  then show ?thesis using assms(2,3) by (simp add: rstrip_id)
qed

lemma tag_last:
  assumes "lower tag \<in> {str ''[bug]'', str ''[feature]'', str ''[other]''}"
  shows "tag \<noteq> [] \<and> \<not> is_space (last tag)"
proof -
  have sp: "\<not> is_space (Ch (CHR '']''))" by (simp add: is_space_def)
  have "lower tag \<noteq> [] \<and> \<not> is_space (last (lower tag))"
    using assms sp by auto
  then show ?thesis
    by (intro lower_last_not_space [of tag "lower tag"]) simp_all
qed

lemma strip_tag_sub_trailing:
  assumes "lower tag \<in> {str ''[bug]'', str ''[feature]'', str ''[other]''}"
    and "\<forall>c\<in>set w. is_space c"
  shows "strip_tag_sub (pre @ tag @ w) = rstrip pre"
proof -
  have t: "pre @ tag \<noteq> [] \<and> \<not> is_space (last (pre @ tag))"
    using tag_last [OF assms(1)] by simp
  have r: "rstrip (pre @ tag @ w) = pre @ tag"
    using rstrip_trailing [of w "pre @ tag"] assms(2) t by simp
  have r2: "rstrip (pre @ tag) = pre @ tag"
    using t by (intro rstrip_id) simp
  have "strip_tag_sub (pre @ tag) = rstrip pre"
    using assms(1) by (rule strip_tag_sub_tag)
  moreover have "strip_tag_sub (pre @ tag) \<noteq> pre @ tag"
  proof -
    obtain v where "pre = rstrip pre @ v" using rstrip_append by blast
    then have "length (rstrip pre) \<le> length pre" by (metis length_append le_add1)
    moreover have "0 < length tag" using tag_last [OF assms(1)] by simp
    ultimately have "length (rstrip pre) < length (pre @ tag)" by (cases tag) simp_all
    then show ?thesis using \<open>strip_tag_sub (pre @ tag) = rstrip pre\<close> by auto
  qed
  ultimately show ?thesis
    unfolding strip_tag_sub_def r r2 Let_def by (auto split: if_splits)
qed

lemma strip_tag_sub_unchanged:
  "strip_tag_sub g = g \<longleftrightarrow>
     \<not> (\<exists>pre tag w. g = pre @ tag @ w
            \<and> lower tag \<in> {str ''[bug]'', str ''[feature]'', str ''[other]''}
            \<and> (\<forall>c\<in>set w. is_space c))"
proof
  assume u: "strip_tag_sub g = g"
  show "\<not> (\<exists>pre tag w. g = pre @ tag @ w
            \<and> lower tag \<in> {str ''[bug]'', str ''[feature]'', str ''[other]''}
            \<and> (\<forall>c\<in>set w. is_space c))"
  proof
    assume "\<exists>pre tag w. g = pre @ tag @ w
            \<and> lower tag \<in> {str ''[bug]'', str ''[feature]'', str ''[other]''}
            \<and> (\<forall>c\<in>set w. is_space c)"
    then obtain pre tag w where g: "g = pre @ tag @ w"
      and t: "lower tag \<in> {str ''[bug]'', str ''[feature]'', str ''[other]''}"
      and w: "\<forall>c\<in>set w. is_space c" by blast
    have "strip_tag_sub g = rstrip pre" unfolding g using t w by (rule strip_tag_sub_trailing)
    then have e: "rstrip pre = pre @ tag @ w" using u g by simp
    obtain v where "pre = rstrip pre @ v" using rstrip_append by blast
    then have "length (rstrip pre) \<le> length pre" by (metis length_append le_add1)
    moreover have "0 < length tag" using tag_last [OF t] by simp
    moreover have "length (rstrip pre) = length (pre @ tag @ w)" using e by simp
    ultimately show False by (cases tag) simp_all
  qed
next
  assume "\<not> (\<exists>pre tag w. g = pre @ tag @ w
            \<and> lower tag \<in> {str ''[bug]'', str ''[feature]'', str ''[other]''}
            \<and> (\<forall>c\<in>set w. is_space c))"
  then show "strip_tag_sub g = g" using strip_tag_sub_changes [of g] by blast
qed

lemma split_acc_spaces:
  "\<forall>c\<in>set w. is_space c \<Longrightarrow> split_acc cur w = (if cur = [] then [] else [cur])"
  by (induction w arbitrary: cur) auto

lemma split_acc_trailing:
  "\<forall>c\<in>set w. is_space c \<Longrightarrow> split_acc cur (s @ w) = split_acc cur s"
proof (induction s arbitrary: cur)
  case Nil
  then show ?case by (simp add: split_acc_spaces)
next
  case (Cons c s)
  then show ?case by simp
qed

lemma split_acc_leading: "split_acc [] (dropWhile is_space s) = split_acc [] s"
  by (induction s) auto

lemma collapse_rstrip: "collapse (rstrip s) = collapse s"
proof -
  obtain w where w: "s = rstrip s @ w" "\<forall>c\<in>set w. is_space c" using rstrip_append by blast
  have "split_acc [] (rstrip s @ w) = split_acc [] (rstrip s)"
    using w(2) by (rule split_acc_trailing)
  then show ?thesis using w(1) by (simp add: collapse_def split_ws_def)
qed

lemma collapse_strip: "collapse (strip s) = collapse s"
  by (simp add: strip_def collapse_rstrip lstrip_def)
     (simp add: collapse_def split_ws_def split_acc_leading)

lemma scan_line_bullet:
  assumes "in_functional (fst st)" "section_re (strip raw) = None"
    "bullet_re (strip raw) = Some g1"
  shows "scan_line st raw =
           (if collapse (strip_tag_sub g1) = [] then st
            else (fst st, snd st @ [collapse (strip_tag_sub g1)]))"
proof -
  have "strip raw \<noteq> []" using assms(3) by (auto simp: bullet_re_def)
  then show ?thesis using assms by (simp add: scan_line_def Let_def collapse_strip)
qed

text \<open>
  C2, as amended. \<open>strip_tag\<close> names three tags. A text that ends with \<open>[bug]\<close>,
  \<open>[feature]\<close> or \<open>[other]\<close>, in any mix of upper and lower case and with whitespace after
  it or not, loses that tag and the whitespace around it; every other text is left as it is,
  whatever it holds in brackets. In the first loop, under a section of functional
  requirements, a bullet whose text ends with one of the three tags adds the text before the
  tag, whitespace collapsed, and a bullet without such a tag adds its whole text, whitespace
  collapsed; an empty result adds nothing.
\<close>

theorem tag_stripping:
  "(lower tag \<in> {str ''[bug]'', str ''[feature]'', str ''[other]''} \<and> (\<forall>c\<in>set w. is_space c)
      \<longrightarrow> strip_tag_sub (pre @ tag @ w) = rstrip pre)
   \<and> (strip_tag_sub g = g \<longleftrightarrow>
        \<not> (\<exists>pre tag w. g = pre @ tag @ w
              \<and> lower tag \<in> {str ''[bug]'', str ''[feature]'', str ''[other]''}
              \<and> (\<forall>c\<in>set w. is_space c)))
   \<and> (in_functional (fst st) \<and> section_re (strip raw) = None
        \<and> bullet_re (strip raw) = Some (pre @ tag)
        \<and> lower tag \<in> {str ''[bug]'', str ''[feature]'', str ''[other]''}
      \<longrightarrow> scan_line st raw
            = (if collapse pre = [] then st else (fst st, snd st @ [collapse pre])))
   \<and> (in_functional (fst st) \<and> section_re (strip raw) = None
        \<and> bullet_re (strip raw) = Some g
        \<and> \<not> (\<exists>pre tag w. g = pre @ tag @ w
              \<and> lower tag \<in> {str ''[bug]'', str ''[feature]'', str ''[other]''}
              \<and> (\<forall>c\<in>set w. is_space c))
      \<longrightarrow> scan_line st raw
            = (if collapse g = [] then st else (fst st, snd st @ [collapse g])))
   \<and> extract_requirement_lines nfkc_ascii
        (str ''3. Functional Requirements\<newline>- Add  x  [Bug]\<newline>- Sync [feature]\<newline>- Add login [NFR]'')
       = [str ''Add x'', str ''Sync'', str ''Add login [NFR]'']"
proof (intro conjI impI)
  assume "lower tag \<in> {str ''[bug]'', str ''[feature]'', str ''[other]''}
            \<and> (\<forall>c\<in>set w. is_space c)"
  then show "strip_tag_sub (pre @ tag @ w) = rstrip pre"
    by (intro strip_tag_sub_trailing) auto
next
  show "strip_tag_sub g = g \<longleftrightarrow>
        \<not> (\<exists>pre tag w. g = pre @ tag @ w
              \<and> lower tag \<in> {str ''[bug]'', str ''[feature]'', str ''[other]''}
              \<and> (\<forall>c\<in>set w. is_space c))"
    by (rule strip_tag_sub_unchanged)
next
  assume a: "in_functional (fst st) \<and> section_re (strip raw) = None
        \<and> bullet_re (strip raw) = Some (pre @ tag)
        \<and> lower tag \<in> {str ''[bug]'', str ''[feature]'', str ''[other]''}"
  then have "strip_tag_sub (pre @ tag) = rstrip pre" by (intro strip_tag_sub_tag) simp
  then show "scan_line st raw
            = (if collapse pre = [] then st else (fst st, snd st @ [collapse pre]))"
    using scan_line_bullet [of st raw "pre @ tag"] a by (simp add: collapse_rstrip)
next
  assume a: "in_functional (fst st) \<and> section_re (strip raw) = None
        \<and> bullet_re (strip raw) = Some g
        \<and> \<not> (\<exists>pre tag w. g = pre @ tag @ w
              \<and> lower tag \<in> {str ''[bug]'', str ''[feature]'', str ''[other]''}
              \<and> (\<forall>c\<in>set w. is_space c))"
  then have "strip_tag_sub g = g" using strip_tag_sub_unchanged [of g] by blast
  then show "scan_line st raw
            = (if collapse g = [] then st else (fst st, snd st @ [collapse g]))"
    using scan_line_bullet [of st raw g] a by simp
next
  show "extract_requirement_lines nfkc_ascii
        (str ''3. Functional Requirements\<newline>- Add  x  [Bug]\<newline>- Sync [feature]\<newline>- Add login [NFR]'')
       = [str ''Add x'', str ''Sync'', str ''Add login [NFR]'']"
    by (simp add: text_eval extract_eval)
qed

text \<open>
  The two implications of \<open>tag_stripping\<close> about the loop, at the bullets
  \<open>- Add  x  [Bug]\<close> and \<open>- Add login [NFR]\<close>.
\<close>

theorem tag_stripping_witness:
  "in_functional (fst (Some (str ''functional requirements''), [] :: ustring list))
   \<and> section_re (strip (str ''- Add  x  [Bug]'')) = None
   \<and> bullet_re (strip (str ''- Add  x  [Bug]'')) = Some (str ''Add  x  '' @ str ''[Bug]'')
   \<and> lower (str ''[Bug]'') \<in> {str ''[bug]'', str ''[feature]'', str ''[other]''}
   \<and> scan_line (Some (str ''functional requirements''), []) (str ''- Add  x  [Bug]'')
       = (Some (str ''functional requirements''), [str ''Add x''])
   \<and> bullet_re (strip (str ''- Add login [NFR]'')) = Some (str ''Add login [NFR]'')
   \<and> strip_tag_sub (str ''Add login [NFR]'') = str ''Add login [NFR]''
   \<and> scan_line (Some (str ''functional requirements''), []) (str ''- Add login [NFR]'')
       = (Some (str ''functional requirements''), [str ''Add login [NFR]''])"
proof -
  let ?st = "(Some (str ''functional requirements''), [] :: ustring list)"
  have f: "in_functional (fst ?st)" by (simp add: in_functional_def)
  have s1: "section_re (strip (str ''- Add  x  [Bug]'')) = None"
    by (simp add: text_eval section_re_def)
  have b1: "bullet_re (strip (str ''- Add  x  [Bug]'')) = Some (str ''Add  x  '' @ str ''[Bug]'')"
    by (simp add: text_eval bullet_re_def)
  have l: "lower (str ''[Bug]'') \<in> {str ''[bug]'', str ''[feature]'', str ''[other]''}"
    by (simp add: text_eval)
  have "scan_line ?st (str ''- Add  x  [Bug]'')
          = (if collapse (str ''Add  x  '') = [] then ?st
             else (fst ?st, snd ?st @ [collapse (str ''Add  x  '')]))"
    using tag_stripping [of "str ''[Bug]''" _ "str ''Add  x  ''" _ ?st "str ''- Add  x  [Bug]''",
        THEN conjunct2, THEN conjunct2, THEN conjunct1] f s1 b1 l by blast
  then have r1: "scan_line ?st (str ''- Add  x  [Bug]'')
       = (Some (str ''functional requirements''), [str ''Add x''])"
    by (simp add: text_eval)
  have s2: "section_re (strip (str ''- Add login [NFR]'')) = None"
    by (simp add: text_eval section_re_def)
  have b2: "bullet_re (strip (str ''- Add login [NFR]'')) = Some (str ''Add login [NFR]'')"
    by (simp add: text_eval bullet_re_def)
  have u: "strip_tag_sub (str ''Add login [NFR]'') = str ''Add login [NFR]''"
    by (simp add: text_eval extract_eval)
  then have n: "\<not> (\<exists>pre tag w. str ''Add login [NFR]'' = pre @ tag @ w
              \<and> lower tag \<in> {str ''[bug]'', str ''[feature]'', str ''[other]''}
              \<and> (\<forall>c\<in>set w. is_space c))"
    using tag_stripping [of _ _ _ "str ''Add login [NFR]''", THEN conjunct2, THEN conjunct1]
    by blast
  have "scan_line ?st (str ''- Add login [NFR]'')
          = (if collapse (str ''Add login [NFR]'') = [] then ?st
             else (fst ?st, snd ?st @ [collapse (str ''Add login [NFR]'')]))"
    using tag_stripping [of _ _ _ "str ''Add login [NFR]''" ?st "str ''- Add login [NFR]''",
        THEN conjunct2, THEN conjunct2, THEN conjunct2, THEN conjunct1] f s2 b2 n by blast
  then have r2: "scan_line ?st (str ''- Add login [NFR]'')
       = (Some (str ''functional requirements''), [str ''Add login [NFR]''])"
    by (simp add: text_eval)
  show ?thesis using f s1 b1 l r1 b2 u r2 by blast
qed

text \<open>
  C2 as stated fails: \<open>[NFR]\<close> is a trailing bracketed tag with alphabetic content, and
  the bullet keeps it.
\<close>

theorem other_tag_kept:
  "strip_tag_sub (str ''Add login [NFR]'') = str ''Add login [NFR]''
   \<and> extract_requirement_lines nfkc_ascii
        (str ''3. Functional Requirements\<newline>- Add login [NFR]'') = [str ''Add login [NFR]'']"
  by (simp add: text_eval extract_eval)


section \<open>The fallback scan (C3)\<close>

lemma fallback_scan_append: "fallback_scan (a @ b) = fallback_scan a @ fallback_scan b"
  by (induction a) (auto split: option.splits)

lemma fallback_scan_none:
  "\<forall>l\<in>set ls. fallback_re (strip l) = None \<Longrightarrow> fallback_scan ls = []"
  by (induction ls) auto

text \<open>
  C3, as amended. The result is built from the bullets of the first loop when there are
  some, and from the numbered lines of the second loop exactly when the first loop captured
  nothing. In a document whose first loop captures nothing and where
  \<open>2.3. Support offline mode\<close> is the only line with a dotted multi-level number, the result
  is that one requirement; so it is for the document of this line alone. With a captured
  bullet the numbered line is not used.
\<close>

theorem fallback_iff_primary_empty:
  "(snd (primary_scan (splitlines (clean_srs nfkc srs_text))) \<noteq> []
      \<longrightarrow> extract_requirement_lines nfkc srs_text
            = dedup {} [] (snd (primary_scan (splitlines (clean_srs nfkc srs_text)))))
   \<and> (snd (primary_scan (splitlines (clean_srs nfkc srs_text))) = []
      \<longrightarrow> extract_requirement_lines nfkc srs_text
            = dedup {} [] (fallback_scan (splitlines (clean_srs nfkc srs_text))))
   \<and> (splitlines (clean_srs nfkc srs_text) = pre @ [line] @ post
        \<and> strip line = str ''2.3. Support offline mode''
        \<and> snd (primary_scan (pre @ [line] @ post)) = []
        \<and> (\<forall>l\<in>set (pre @ post). fallback_re (strip l) = None)
      \<longrightarrow> extract_requirement_lines nfkc srs_text = [str ''Support offline mode''])
   \<and> extract_requirement_lines nfkc_ascii (str ''2.3. Support offline mode'')
        = [str ''Support offline mode'']
   \<and> extract_requirement_lines nfkc_ascii
        (str ''3. Functional Requirements\<newline>- Add login\<newline>2.3. Support offline mode'')
        = [str ''Add login'']"
proof (intro conjI impI)
  assume "snd (primary_scan (splitlines (clean_srs nfkc srs_text))) \<noteq> []"
  then show "extract_requirement_lines nfkc srs_text
            = dedup {} [] (snd (primary_scan (splitlines (clean_srs nfkc srs_text))))"
    by (simp add: extract_requirement_lines_def candidates_def Let_def)
next
  assume "snd (primary_scan (splitlines (clean_srs nfkc srs_text))) = []"
  then show "extract_requirement_lines nfkc srs_text
            = dedup {} [] (fallback_scan (splitlines (clean_srs nfkc srs_text)))"
    by (simp add: extract_requirement_lines_def candidates_def Let_def)
next
  assume a: "splitlines (clean_srs nfkc srs_text) = pre @ [line] @ post
        \<and> strip line = str ''2.3. Support offline mode''
        \<and> snd (primary_scan (pre @ [line] @ post)) = []
        \<and> (\<forall>l\<in>set (pre @ post). fallback_re (strip l) = None)"
  have "fallback_re (str ''2.3. Support offline mode'') = Some (str ''Support offline mode'')"
    by (simp add: text_eval fallback_re_def)
  moreover have "collapse (str ''Support offline mode'') = str ''Support offline mode''"
    by (simp add: text_eval)
  ultimately have "fallback_scan [line] = [str ''Support offline mode'']"
    using a by simp
  moreover have "fallback_scan pre = []" "fallback_scan post = []"
    using a by (simp_all add: fallback_scan_none)
  ultimately have "fallback_scan (pre @ [line] @ post) = [str ''Support offline mode'']"
    by (simp only: fallback_scan_append) simp
  then have "candidates (pre @ [line] @ post) = [str ''Support offline mode'']"
    using a by (simp add: candidates_def Let_def)
  then show "extract_requirement_lines nfkc srs_text = [str ''Support offline mode'']"
    using a by (simp add: extract_requirement_lines_def)
next
  show "extract_requirement_lines nfkc_ascii (str ''2.3. Support offline mode'')
        = [str ''Support offline mode'']"
    by (simp add: text_eval extract_eval)
next
  show "extract_requirement_lines nfkc_ascii
        (str ''3. Functional Requirements\<newline>- Add login\<newline>2.3. Support offline mode'')
        = [str ''Add login'']"
    by (simp add: text_eval extract_eval)
qed

text \<open>
  The implications of \<open>fallback_iff_primary_empty\<close> at a document of three lines without
  a captured bullet, and at a document with one.
\<close>

theorem fallback_iff_primary_empty_witness:
  "splitlines (clean_srs nfkc_ascii
       (str ''Version 2\<newline>  2.3. Support offline mode\<newline>- Add login''))
     = [str ''Version 2''] @ [str ''  2.3. Support offline mode''] @ [str ''- Add login'']
   \<and> strip (str ''  2.3. Support offline mode'') = str ''2.3. Support offline mode''
   \<and> snd (primary_scan ([str ''Version 2''] @ [str ''  2.3. Support offline mode'']
                          @ [str ''- Add login''])) = []
   \<and> fallback_re (strip (str ''Version 2'')) = None
   \<and> fallback_re (strip (str ''- Add login'')) = None
   \<and> extract_requirement_lines nfkc_ascii
        (str ''Version 2\<newline>  2.3. Support offline mode\<newline>- Add login'')
       = [str ''Support offline mode'']
   \<and> snd (primary_scan (splitlines (clean_srs nfkc_ascii
          (str ''3. Functional Requirements\<newline>- Add login\<newline>1.1 Foo'')))) = [str ''Add login'']
   \<and> extract_requirement_lines nfkc_ascii
        (str ''3. Functional Requirements\<newline>- Add login\<newline>1.1 Foo'')
       = dedup {} [] [str ''Add login'']"
proof -
  let ?doc = "str ''Version 2\<newline>  2.3. Support offline mode\<newline>- Add login''"
  have sl: "splitlines (clean_srs nfkc_ascii ?doc)
     = [str ''Version 2''] @ [str ''  2.3. Support offline mode''] @ [str ''- Add login'']"
    by (simp add: text_eval clean_srs_def nfkc_ascii_def)
  have st: "strip (str ''  2.3. Support offline mode'') = str ''2.3. Support offline mode''"
    by (simp add: text_eval)
  have ps: "snd (primary_scan ([str ''Version 2''] @ [str ''  2.3. Support offline mode'']
                          @ [str ''- Add login''])) = []"
    by (simp add: text_eval extract_eval)
  have f1: "fallback_re (strip (str ''Version 2'')) = None"
    by (simp add: text_eval fallback_re_def)
  have f2: "fallback_re (strip (str ''- Add login'')) = None"
    by (simp add: text_eval fallback_re_def)
  have fa: "\<forall>l\<in>set ([str ''Version 2''] @ [str ''- Add login'']). fallback_re (strip l) = None"
    using f1 f2 by simp
  have r: "extract_requirement_lines nfkc_ascii ?doc = [str ''Support offline mode'']"
    using fallback_iff_primary_empty [of nfkc_ascii ?doc "[str ''Version 2'']"
        "str ''  2.3. Support offline mode''" "[str ''- Add login'']",
        THEN conjunct2, THEN conjunct2, THEN conjunct1] sl st ps fa by blast
  let ?doc2 = "str ''3. Functional Requirements\<newline>- Add login\<newline>1.1 Foo''"
  have p2: "snd (primary_scan (splitlines (clean_srs nfkc_ascii ?doc2))) = [str ''Add login'']"
    by (simp add: text_eval extract_eval)
  then have ne: "snd (primary_scan (splitlines (clean_srs nfkc_ascii ?doc2))) \<noteq> []"
    by simp
  have "extract_requirement_lines nfkc_ascii ?doc2
          = dedup {} [] (snd (primary_scan (splitlines (clean_srs nfkc_ascii ?doc2))))"
    using fallback_iff_primary_empty [of nfkc_ascii ?doc2, THEN conjunct1] ne by (rule mp)
  then have r2: "extract_requirement_lines nfkc_ascii ?doc2 = dedup {} [] [str ''Add login'']"
    unfolding p2 .
  show ?thesis using sl st ps f1 f2 r p2 r2 by blast
qed

text \<open>
  C3 as stated fails: a second numbered line adds its own candidate, and a bullet under
  \<open>4. Non-Functional Requirements\<close>, whose text holds \<open>functional requirements\<close>, is
  captured, so that the numbered line is not used.
\<close>

theorem other_numbered_lines_returned:
  "extract_requirement_lines nfkc_ascii (str ''1.1 Foo\<newline>2.3. Support offline mode'')
     = [str ''Foo'', str ''Support offline mode'']
   \<and> extract_requirement_lines nfkc_ascii
        (str ''4. Non-Functional Requirements\<newline>- Fast\<newline>2.3. Support offline mode'')
     = [str ''Fast'']"
  by (simp add: text_eval extract_eval)


section \<open>De-duplication of the requirements (C4)\<close>

lemma dedup_keep_first:
  "dedup seen out rs = out @ keep_first (filter (\<lambda>x. lower x \<notin> seen) rs)"
proof (induction rs arbitrary: seen out)
  case Nil
  then show ?case by simp
next
  case (Cons r rs)
  show ?case
  proof (cases "lower r \<in> seen")
    case True
    then show ?thesis by (simp add: Cons.IH)
  next
    case False
    have "filter (\<lambda>x. lower x \<noteq> lower r) (filter (\<lambda>x. lower x \<notin> seen) rs)
            = filter (\<lambda>x. lower x \<notin> insert (lower r) seen) rs"
      by (induction rs) auto
    then show ?thesis using False by (simp add: Cons.IH)
  qed
qed

lemma set_keep_first: "set (keep_first rs) \<subseteq> set rs"
  by (induction rs rule: keep_first.induct) auto

lemma distinct_keep_first: "distinct (map lower (keep_first rs))"
proof (induction rs rule: keep_first.induct)
  case 1
  then show ?case by simp
next
  case (2 r rs)
  have "lower r \<notin> lower ` set (keep_first (filter (\<lambda>x. lower x \<noteq> lower r) rs))"
    using set_keep_first [of "filter (\<lambda>x. lower x \<noteq> lower r) rs"] by auto
  then show ?case using 2 by simp
qed

text \<open>
  C4. The result of the extractor holds no two entries with the same lower-cased form, and
  it is the list of first occurrences of the candidates, in their order. The two bullets
  \<open>- Add login\<close> and \<open>- add LOGIN\<close> under the heading give the one requirement
  \<open>Add login\<close>.
\<close>

theorem dedup_case_insensitive:
  "distinct (map lower (extract_requirement_lines nfkc srs_text))
   \<and> extract_requirement_lines nfkc srs_text
       = keep_first (candidates (splitlines (clean_srs nfkc srs_text)))
   \<and> extract_requirement_lines nfkc_ascii
        (str ''3. Functional Requirements\<newline>- Add login\<newline>- add LOGIN'') = [str ''Add login'']"
proof (intro conjI)
  show k: "extract_requirement_lines nfkc srs_text
       = keep_first (candidates (splitlines (clean_srs nfkc srs_text)))"
    by (simp add: extract_requirement_lines_def dedup_keep_first)
  show "distinct (map lower (extract_requirement_lines nfkc srs_text))"
    unfolding k by (rule distinct_keep_first)
  show "extract_requirement_lines nfkc_ascii
        (str ''3. Functional Requirements\<newline>- Add login\<newline>- add LOGIN'') = [str ''Add login'']"
    by (simp add: text_eval extract_eval)
qed

section \<open>Parsing the reply of the model (C5)\<close>

lemmas story_eval = reply_lines_def is_marker_def strip_markers_def is_story_def parse_reply_def









section \<open>The cap on the number of stories (C6)\<close>

lemma keep_first_distinct: "distinct (map lower xs) \<Longrightarrow> keep_first xs = xs"
proof (induction xs)
  case Nil
  then show ?case by simp
next
  case (Cons r rs)
  then have "\<forall>x\<in>set rs. lower x \<noteq> lower r"
    by (metis distinct.simps(2) imageI list.simps(9) set_map)
  then have "filter (\<lambda>x. lower x \<noteq> lower r) rs = rs"
    by (simp add: filter_id_conv)
  then show ?case using Cons by simp
qed

lemma dedup_cap_take:
  "int (length out) < m \<Longrightarrow>
     dedup_cap m seen out ss = take (nat m) (out @ keep_first (filter (\<lambda>x. lower x \<notin> seen) ss))"
proof (induction ss arbitrary: seen out)
  case Nil
  then show ?case by simp
next
  case (Cons s ss)
  show ?case
  proof (cases "lower s \<in> seen")
    case True
    then show ?thesis using Cons.prems by (simp add: Cons.IH)
  next
    case False
    have f: "filter (\<lambda>x. lower x \<noteq> lower s) (filter (\<lambda>x. lower x \<notin> seen) ss)
            = filter (\<lambda>x. lower x \<notin> insert (lower s) seen) ss"
      by (induction ss) auto
    show ?thesis
    proof (cases "int (length (out @ [s])) \<ge> m")
      case True
      then have "nat m = Suc (length out)" using Cons.prems by simp
      then show ?thesis using False True by (simp add: Let_def)
    next
      case False2: False
      then have "int (length (out @ [s])) < m" by simp
      then have "dedup_cap m (insert (lower s) seen) (out @ [s]) ss
                   = take (nat m) ((out @ [s]) @
                       keep_first (filter (\<lambda>x. lower x \<notin> insert (lower s) seen) ss))"
        by (rule Cons.IH)
      then show ?thesis using False False2 f by (simp add: Let_def)
    qed
  qed
qed

lemma cap_bound: "1 \<le> m \<Longrightarrow> int (length (parse_reply m raw)) \<le> m"
  by (simp add: parse_reply_def dedup_cap_take)

text \<open>
  C6, as amended. For a cap of at least 1 the last loop returns the first \<open>max_stories\<close>
  entries of the list of first occurrences of the parsed stories, and never more than
  \<open>max_stories\<close>. When the parsed stories are pairwise distinct up to case and at least
  \<open>max_stories\<close> many, these are exactly the first \<open>max_stories\<close> of them, in their order:
  of 60 such stories and a cap of 50, the first 50.
\<close>

theorem cap_enforced:
  "(1 \<le> max_stories \<longrightarrow>
      dedup_cap max_stories {} [] stories = take (nat max_stories) (keep_first stories)
      \<and> int (length (dedup_cap max_stories {} [] stories)) \<le> max_stories)
   \<and> (1 \<le> max_stories \<and> distinct (map lower stories) \<and> max_stories \<le> int (length stories)
      \<longrightarrow> dedup_cap max_stories {} [] stories = take (nat max_stories) stories
          \<and> int (length (dedup_cap max_stories {} [] stories)) = max_stories)
   \<and> (length stories = 60 \<and> distinct (map lower stories)
      \<longrightarrow> dedup_cap 50 {} [] stories = take 50 stories
          \<and> length (dedup_cap 50 {} [] stories) = 50)
   \<and> parse_reply max_stories raw
       = dedup_cap max_stories {} [] (collect_stories (reply_lines raw))"
proof (intro conjI impI)
  assume m: "1 \<le> max_stories"
  then show e: "dedup_cap max_stories {} [] stories = take (nat max_stories) (keep_first stories)"
    by (simp add: dedup_cap_take)
  show "int (length (dedup_cap max_stories {} [] stories)) \<le> max_stories"
    unfolding e using m by simp
next
  assume a: "1 \<le> max_stories \<and> distinct (map lower stories)
               \<and> max_stories \<le> int (length stories)"
  then show e: "dedup_cap max_stories {} [] stories = take (nat max_stories) stories"
    by (simp add: dedup_cap_take keep_first_distinct)
  have "nat max_stories \<le> length stories" using a by linarith
  then show "int (length (dedup_cap max_stories {} [] stories)) = max_stories"
    unfolding e using a by simp
next
  assume a: "length stories = 60 \<and> distinct (map lower stories)"
  then show e: "dedup_cap 50 {} [] stories = take 50 stories"
    using dedup_cap_take [of "[]" 50 "{}" stories] by (simp add: keep_first_distinct)
  show "length (dedup_cap 50 {} [] stories) = 50"
    unfolding e using a by simp
next
  show "parse_reply max_stories raw
       = dedup_cap max_stories {} [] (collect_stories (reply_lines raw))"
    by (rule parse_reply_def)
qed

lemma sixty_stories_distinct: "distinct (map lower sixty_stories)"
proof -
  have "inj_on (\<lambda>n. lower (str ''As a user, I want '' @ replicate n (Ch (CHR ''x'')))) (set [1..<61])"
  proof (rule inj_onI)
    fix a b :: nat
    assume "lower (str ''As a user, I want '' @ replicate a (Ch (CHR ''x'')))
              = lower (str ''As a user, I want '' @ replicate b (Ch (CHR ''x'')))"
    then have "length (lower (str ''As a user, I want '' @ replicate a (Ch (CHR ''x''))))
              = length (lower (str ''As a user, I want '' @ replicate b (Ch (CHR ''x''))))"
      by (rule arg_cong)
    then show "a = b" by simp
  qed
  then have "distinct (map (\<lambda>n. lower (str ''As a user, I want '' @ replicate n (Ch (CHR ''x'')))) [1..<61])"
    by (simp only: distinct_map distinct_upt)
  then show ?thesis by (simp add: sixty_stories_def comp_def)
qed

text \<open>
  The implications of \<open>cap_enforced\<close> at three stories with a cap of 2, and at sixty
  stories with the cap of 50.
\<close>

theorem cap_enforced_witness:
  "(1::int) \<le> 2
   \<and> distinct (map lower [str ''As a user, I want x'', str ''As a user, I want y'', str ''As a user, I want z''])
   \<and> dedup_cap 2 {} [] [str ''As a user, I want x'', str ''As a user, I want y'', str ''As a user, I want z'']
       = [str ''As a user, I want x'', str ''As a user, I want y'']
   \<and> length sixty_stories = 60 \<and> distinct (map lower sixty_stories)
   \<and> dedup_cap 50 {} [] sixty_stories = take 50 sixty_stories
   \<and> length (dedup_cap 50 {} [] sixty_stories) = 50"
proof -
  have d: "distinct (map lower [str ''As a user, I want x'', str ''As a user, I want y'', str ''As a user, I want z''])"
    by (simp add: text_eval)
  have "dedup_cap 2 {} [] [str ''As a user, I want x'', str ''As a user, I want y'', str ''As a user, I want z'']
       = take (nat 2) [str ''As a user, I want x'', str ''As a user, I want y'', str ''As a user, I want z'']"
    using cap_enforced [of 2 "[str ''As a user, I want x'', str ''As a user, I want y'', str ''As a user, I want z'']",
        THEN conjunct2, THEN conjunct1] d by simp
  then have s: "dedup_cap 2 {} [] [str ''As a user, I want x'', str ''As a user, I want y'', str ''As a user, I want z'']
       = [str ''As a user, I want x'', str ''As a user, I want y'']"
    by (simp add: numeral_2_eq_2)
  have l: "length sixty_stories = 60" by (simp add: sixty_stories_def)
  have "dedup_cap 50 {} [] sixty_stories = take 50 sixty_stories
          \<and> length (dedup_cap 50 {} [] sixty_stories) = 50"
    using cap_enforced [of _ sixty_stories, THEN conjunct2, THEN conjunct2, THEN conjunct1]
      l sixty_stories_distinct by blast
  then show ?thesis using d s l sixty_stories_distinct by simp
qed

text \<open>
  C6 as stated fails for a cap of 0: the story is appended before the length of \<open>out\<close> is
  compared with the cap, and one story is returned. And lines of the reply that differ only
  in their list marker are one story: of three such lines and a cap of 2, the first and the
  third are returned.
\<close>

theorem cap_zero_returns_one:
  "parse_reply 0 (str ''As a user, I want x.'') = [str ''As a user, I want x.'']
   \<and> \<not> int (length (parse_reply 0 (str ''As a user, I want x.''))) \<le> 0
   \<and> parse_reply 2
        (str ''1. As a user, I want x\<newline>2. As a user, I want x\<newline>3. As a user, I want y'')
       = [str ''As a user, I want x'', str ''As a user, I want y'']"
  by (simp add: text_eval story_eval Let_def)


section \<open>Stories and requirements (C7)\<close>

lemma length_dedup_cap: "length (dedup_cap m seen out ss) \<le> length out + length ss"
proof (induction ss arbitrary: seen out)
  case Nil
  then show ?case by simp
next
  case (Cons s ss)
  have a: "length (dedup_cap m (insert (lower s) seen) (out @ [s]) ss)
             \<le> length (out @ [s]) + length ss"
    by (rule Cons.IH)
  have b: "length (dedup_cap m seen out ss) \<le> length out + length ss"
    by (rule Cons.IH)
  show ?case using a b by (simp add: Let_def)
qed

lemma length_collect_stories: "length (collect_stories lns) \<le> length lns"
  by (induction lns) (auto simp: Let_def)

lemma length_parse_reply: "length (parse_reply m raw) \<le> length (reply_lines raw)"
  using length_dedup_cap [of m "{}" "[]" "collect_stories (reply_lines raw)"]
    length_collect_stories [of "reply_lines raw"] by (simp add: parse_reply_def)

text \<open>
  C7, as amended. Without any extracted requirement the synthesizer returns the empty list
  and sends no prompt. Otherwise the stories are parsed from the one reply of the backend:
  their number is at most the number of non-blank lines of the reply, and at most
  \<open>max_stories\<close> for a cap of at least 1. The number of requirements is no bound.
\<close>

theorem story_count_bound:
  "(extract_requirement_lines nfkc srs_text = []
      \<longrightarrow> srs_to_user_stories nfkc backend srs_text max_stories = (Inr [], []))
   \<and> (\<forall>stories. fst (srs_to_user_stories nfkc backend srs_text max_stories) = Inr stories
          \<and> 1 \<le> max_stories
        \<longrightarrow> int (length stories) \<le> max_stories)
   \<and> (\<forall>raw. extract_requirement_lines nfkc srs_text \<noteq> []
          \<and> backend (story_prompt (extract_requirement_lines nfkc srs_text)) = Inr raw
        \<longrightarrow> fst (srs_to_user_stories nfkc backend srs_text max_stories)
              = Inr (parse_reply max_stories (strip raw))
            \<and> length (parse_reply max_stories (strip raw)) \<le> length (reply_lines (strip raw)))"
proof (intro conjI allI impI)
  assume "extract_requirement_lines nfkc srs_text = []"
  then show "srs_to_user_stories nfkc backend srs_text max_stories = (Inr [], [])"
    by (simp add: srs_to_user_stories_def)
next
  fix stories
  assume a: "fst (srs_to_user_stories nfkc backend srs_text max_stories) = Inr stories
          \<and> 1 \<le> max_stories"
  then have "stories = [] \<or> (\<exists>raw. stories = parse_reply max_stories raw)"
    by (auto simp: srs_to_user_stories_def Let_def split: if_splits sum.splits)
  then show "int (length stories) \<le> max_stories"
    using a cap_bound by auto
next
  fix raw
  assume a: "extract_requirement_lines nfkc srs_text \<noteq> []
          \<and> backend (story_prompt (extract_requirement_lines nfkc srs_text)) = Inr raw"
  then show "fst (srs_to_user_stories nfkc backend srs_text max_stories)
              = Inr (parse_reply max_stories (strip raw))"
    by (simp add: srs_to_user_stories_def ask_def Let_def)
  show "length (parse_reply max_stories (strip raw)) \<le> length (reply_lines (strip raw))"
    by (rule length_parse_reply)
qed

text \<open>
  The implications of \<open>story_count_bound\<close> at a text without requirements, and at a text
  with one requirement and a cap of 1.
\<close>

theorem story_count_bound_witness:
  "extract_requirement_lines nfkc_ascii (str ''Nothing to extract'') = []
   \<and> srs_to_user_stories nfkc_ascii two_story_backend (str ''Nothing to extract'') 1 = (Inr [], [])
   \<and> extract_requirement_lines nfkc_ascii (str ''3. Functional Requirements\<newline>- Add login'') \<noteq> []
   \<and> fst (srs_to_user_stories nfkc_ascii two_story_backend
             (str ''3. Functional Requirements\<newline>- Add login'') 1)
        = Inr [str ''As a user, I want to log in.'']
   \<and> int (length [str ''As a user, I want to log in.'']) \<le> 1"
proof -
  have e: "extract_requirement_lines nfkc_ascii (str ''Nothing to extract'') = []"
    by (simp add: text_eval extract_eval)
  have r: "srs_to_user_stories nfkc_ascii two_story_backend (str ''Nothing to extract'') 1 = (Inr [], [])"
    using story_count_bound [of nfkc_ascii "str ''Nothing to extract''" two_story_backend 1,
        THEN conjunct1] e by (rule mp)
  have x: "extract_requirement_lines nfkc_ascii (str ''3. Functional Requirements\<newline>- Add login'')
             = [str ''Add login'']"
    by (simp add: text_eval extract_eval)
  have b: "two_story_backend
             (story_prompt (extract_requirement_lines nfkc_ascii
                (str ''3. Functional Requirements\<newline>- Add login'')))
           = Inr (str ''1. As a user, I want to log in.\<newline>2. As a user, I want to log out.'')"
    by (simp add: two_story_backend_def)
  have "fst (srs_to_user_stories nfkc_ascii two_story_backend
             (str ''3. Functional Requirements\<newline>- Add login'') 1)
        = Inr (parse_reply 1
            (strip (str ''1. As a user, I want to log in.\<newline>2. As a user, I want to log out.'')))"
    using story_count_bound [of nfkc_ascii "str ''3. Functional Requirements\<newline>- Add login''"
        two_story_backend 1, THEN conjunct2, THEN conjunct2] x b by simp
  then have f: "fst (srs_to_user_stories nfkc_ascii two_story_backend
             (str ''3. Functional Requirements\<newline>- Add login'') 1)
        = Inr [str ''As a user, I want to log in.'']"
    by (simp add: text_eval story_eval)
  have "int (length [str ''As a user, I want to log in.'']) \<le> 1"
    using story_count_bound [of nfkc_ascii "str ''3. Functional Requirements\<newline>- Add login''"
        two_story_backend 1, THEN conjunct2, THEN conjunct1] f by blast
  then show ?thesis using e r x f by simp
qed

text \<open>
  C7 as stated fails: one requirement is extracted, the reply holds two conforming lines,
  and two stories are returned.
\<close>

theorem more_stories_than_requirements:
  "extract_requirement_lines nfkc_ascii (str ''3. Functional Requirements\<newline>- Add login'')
     = [str ''Add login'']
   \<and> fst (srs_to_user_stories nfkc_ascii two_story_backend
             (str ''3. Functional Requirements\<newline>- Add login'') 50)
       = Inr [str ''As a user, I want to log in.'', str ''As a user, I want to log out.'']
   \<and> \<not> length [str ''As a user, I want to log in.'', str ''As a user, I want to log out.'']
         \<le> length (extract_requirement_lines nfkc_ascii
                      (str ''3. Functional Requirements\<newline>- Add login''))"
proof -
  have x: "extract_requirement_lines nfkc_ascii (str ''3. Functional Requirements\<newline>- Add login'')
             = [str ''Add login'']"
    by (simp add: text_eval extract_eval)
  have p: "parse_reply 50
             (strip (str ''1. As a user, I want to log in.\<newline>2. As a user, I want to log out.''))
           = [str ''As a user, I want to log in.'', str ''As a user, I want to log out.'']"
    by (simp add: text_eval story_eval)
  have a: "ask two_story_backend (story_prompt [str ''Add login''])
             = Inr (strip (str ''1. As a user, I want to log in.\<newline>2. As a user, I want to log out.''))"
    by (simp only: ask_def two_story_backend_def sum.case)
  have "fst (srs_to_user_stories nfkc_ascii two_story_backend
             (str ''3. Functional Requirements\<newline>- Add login'') 50)
       = Inr [str ''As a user, I want to log in.'', str ''As a user, I want to log out.'']"
    unfolding srs_to_user_stories_def x Let_def a sum.case p by simp
  then show ?thesis unfolding x by simp
qed

section \<open>The two normalisations of text (C8)\<close>

lemma remove_bold_keep: "b \<noteq> Ch (CHR ''*'') \<Longrightarrow> remove_bold (b # cs) = b # remove_bold cs"
  by (cases cs) auto

lemma remove_bold_no_bold: "\<not> contains (remove_bold t) (str ''**'')"
proof (induction t rule: remove_bold.induct)
  case (1 a b cs)
  show ?case
  proof (cases "a = Ch (CHR ''*'') \<and> b = Ch (CHR ''*'')")
    case True
    then show ?thesis using 1 by simp
  next
    case False
    then have ih: "\<not> contains (remove_bold (b # cs)) (str ''**'')" using 1 by simp
    show ?thesis
    proof (cases "a = Ch (CHR ''*'')")
      case True
      then have nb: "b \<noteq> Ch (CHR ''*'')" using False by simp
      then have "remove_bold (b # cs) = b # remove_bold cs" by (rule remove_bold_keep)
      then show ?thesis using ih False nb by simp
    next
      case False
      then show ?thesis using ih by simp
    qed
  qed
qed simp_all

lemma set_remove_bold: "set (remove_bold t) \<subseteq> set t"
  by (induction t rule: remove_bold.induct) auto

lemma set_strip: "set (strip t) \<subseteq> set t"
proof -
  have "set (rstrip (lstrip t)) \<subseteq> set (lstrip t)"
    unfolding rstrip_def using set_dropWhileD [of _ is_space "rev (lstrip t)"] by auto
  moreover have "set (lstrip t) \<subseteq> set t"
    unfolding lstrip_def using set_dropWhileD [of _ is_space t] by auto
  ultimately show ?thesis by (auto simp: strip_def)
qed

lemma nul_removed: "Ch (CHR 0x00) \<notin> set (remove_nul s)"
  by (simp add: remove_nul_def)

lemma remove_bold_parts:
  "\<exists>parts. parts \<noteq> [] \<and> t = join (str ''**'') parts \<and> remove_bold t = concat parts
           \<and> (\<forall>p\<in>set parts. \<not> contains p (str ''**''))"
proof (induction t rule: induct_list012)
  case 1
  have "[] = join (str ''**'') [[]] \<and> remove_bold [] = concat [[]]
          \<and> (\<forall>p\<in>set [[]]. \<not> contains p (str ''**''))" by simp
  then show ?case by blast
next
  case (2 v)
  have "[v] = join (str ''**'') [[v]] \<and> remove_bold [v] = concat [[v]]
          \<and> (\<forall>p\<in>set [[v]]. \<not> contains p (str ''**''))" by simp
  then show ?case by blast
next
  case (3 a b cs)
  show ?case
  proof (cases "a = Ch (CHR ''*'') \<and> b = Ch (CHR ''*'')")
    case True
    then obtain parts where p: "parts \<noteq> []" "cs = join (str ''**'') parts"
      "remove_bold cs = concat parts" "\<forall>p\<in>set parts. \<not> contains p (str ''**'')"
      using 3(1) by blast
    obtain q qs where q: "parts = q # qs" using p(1) by (cases parts) auto
    have "a # b # cs = join (str ''**'') ([] # parts)"
      using True p(2) q by simp
    moreover have "remove_bold (a # b # cs) = concat ([] # parts)"
      using True p(3) by simp
    moreover have "\<forall>p\<in>set ([] # parts). \<not> contains p (str ''**'')"
      using p(4) by simp
    ultimately show ?thesis by blast
  next
    case False
    then obtain parts where p: "parts \<noteq> []" "b # cs = join (str ''**'') parts"
      "remove_bold (b # cs) = concat parts" "\<forall>p\<in>set parts. \<not> contains p (str ''**'')"
      using 3(2) by blast
    obtain q qs where q: "parts = q # qs" using p(1) by (cases parts) auto
    have j: "a # b # cs = join (str ''**'') ((a # q) # qs)"
      using p(2) q by (cases qs) simp_all
    have "remove_bold (a # b # cs) = a # remove_bold (b # cs)"
      by (simp only: remove_bold.simps False if_False)
    then have r: "remove_bold (a # b # cs) = concat ((a # q) # qs)"
      using p(3) q by simp
    have "\<not> prefix (str ''**'') (a # q)"
    proof (cases "a = Ch (CHR ''*'')")
      case True
      then have nb: "b \<noteq> Ch (CHR ''*'')" using False by simp
      show ?thesis
      proof (cases q)
        case Nil
        then show ?thesis by simp
      next
        case (Cons x xs)
        then have "x = b" using p(2) q by (cases qs) simp_all
        then show ?thesis using nb Cons by simp
      qed
    next
      case False
      then show ?thesis by simp
    qed
    moreover have "\<not> contains q (str ''**'')" using p(4) q by simp
    ultimately have "\<not> contains (a # q) (str ''**'')" by simp
    then have "\<forall>p\<in>set ((a # q) # qs). \<not> contains p (str ''**'')"
      using p(4) q by simp
    then show ?thesis using j r by blast
  qed
qed

lemma strip_segment:
  "\<exists>pre post. t = pre @ strip t @ post \<and> (\<forall>c\<in>set pre. is_space c) \<and> (\<forall>c\<in>set post. is_space c)"
proof -
  obtain w where w: "lstrip t = rstrip (lstrip t) @ w" "\<forall>c\<in>set w. is_space c"
    using rstrip_append by blast
  have "t = takeWhile is_space t @ lstrip t" by (simp add: lstrip_def)
  then have "t = takeWhile is_space t @ strip t @ w"
    using w(1) by (simp add: strip_def)
  moreover have "\<forall>c\<in>set (takeWhile is_space t). is_space c"
    by (auto dest: set_takeWhileD)
  ultimately show ?thesis using w(2) by blast
qed

text \<open>
  C8, as amended. The program has two normalisations, both total functions of the text.
  The one at the head of the extractor returns the NFKC form of the text without its NULs,
  with every \<open>**\<close> deleted: that form is a sequence of parts without \<open>**\<close>, joined by
  \<open>**\<close>, and the result is the parts put together. It does not trim the text; the lines are
  trimmed one by one later. The one of the upload returns the text without its NULs and
  without the whitespace around it, its characters otherwise as they are: no Unicode
  normalisation is applied. Its result is empty or starts and ends with a character that is
  not whitespace, and a second application leaves it unchanged.
\<close>

theorem normalisation_steps:
  "(\<exists>parts. nfkc (filter (\<lambda>c. c \<noteq> Ch (CHR 0x00)) s) = join (str ''**'') parts
        \<and> clean_srs nfkc s = concat parts
        \<and> (\<forall>p\<in>set parts. \<not> contains p (str ''**'')))
   \<and> (\<exists>pre post. filter (\<lambda>c. c \<noteq> Ch (CHR 0x00)) s = pre @ final_cleanup s @ post
        \<and> (\<forall>c\<in>set pre. is_space c) \<and> (\<forall>c\<in>set post. is_space c))
   \<and> (final_cleanup s = []
        \<or> (\<not> is_space (hd (final_cleanup s)) \<and> \<not> is_space (last (final_cleanup s))))
   \<and> ((\<forall>t. Ch (CHR 0x00) \<notin> set t \<longrightarrow> Ch (CHR 0x00) \<notin> set (nfkc t))
         \<longrightarrow> Ch (CHR 0x00) \<notin> set (clean_srs nfkc s))
   \<and> \<not> contains (clean_srs nfkc s) (str ''**'')
   \<and> Ch (CHR 0x00) \<notin> set (final_cleanup s)
   \<and> final_cleanup (final_cleanup s) = final_cleanup s"
proof (intro conjI impI)
  obtain parts where "nfkc (remove_nul s) = join (str ''**'') parts"
      "remove_bold (nfkc (remove_nul s)) = concat parts"
      "\<forall>p\<in>set parts. \<not> contains p (str ''**'')"
    using remove_bold_parts [of "nfkc (remove_nul s)"] by blast
  then show "\<exists>parts. nfkc (filter (\<lambda>c. c \<noteq> Ch (CHR 0x00)) s) = join (str ''**'') parts
        \<and> clean_srs nfkc s = concat parts
        \<and> (\<forall>p\<in>set parts. \<not> contains p (str ''**''))"
    unfolding clean_srs_def remove_nul_def by blast
next
  show "\<exists>pre post. filter (\<lambda>c. c \<noteq> Ch (CHR 0x00)) s = pre @ final_cleanup s @ post
        \<and> (\<forall>c\<in>set pre. is_space c) \<and> (\<forall>c\<in>set post. is_space c)"
    using strip_segment [of "filter (\<lambda>c. c \<noteq> Ch (CHR 0x00)) s"]
    unfolding final_cleanup_def remove_nul_def by blast
next
  show "final_cleanup s = []
        \<or> (\<not> is_space (hd (final_cleanup s)) \<and> \<not> is_space (last (final_cleanup s)))"
    unfolding final_cleanup_def using strip_hd strip_last by blast
next
  assume "\<forall>t. Ch (CHR 0x00) \<notin> set t \<longrightarrow> Ch (CHR 0x00) \<notin> set (nfkc t)"
  then have "Ch (CHR 0x00) \<notin> set (nfkc (remove_nul s))" using nul_removed by blast
  then show "Ch (CHR 0x00) \<notin> set (clean_srs nfkc s)"
    using set_remove_bold [of "nfkc (remove_nul s)"] by (auto simp: clean_srs_def)
next
  show "\<not> contains (clean_srs nfkc s) (str ''**'')"
    unfolding clean_srs_def by (rule remove_bold_no_bold)
next
  show n: "Ch (CHR 0x00) \<notin> set (final_cleanup s)"
    using set_strip [of "remove_nul s"] nul_removed [of s] by (auto simp: final_cleanup_def)
  have "remove_nul (final_cleanup s) = final_cleanup s"
    using n by (simp add: remove_nul_def filter_id_conv) metis
  then show "final_cleanup (final_cleanup s) = final_cleanup s"
    by (simp add: final_cleanup_def strip_strip)
qed

text \<open>
  The hypotheses of \<open>normalisation_steps\<close> at the identity on ASCII text and at a text
  with a NUL and outer blanks.
\<close>

theorem normalisation_steps_witness:
  "Ch (CHR 0x00) \<notin> set (clean_srs nfkc_ascii [Ch (CHR ''a''), Ch (CHR 0x00), Ch (CHR ''*''), Ch (CHR ''*''), Ch (CHR ''b'')])
   \<and> clean_srs nfkc_ascii [Ch (CHR ''a''), Ch (CHR 0x00), Ch (CHR ''*''), Ch (CHR ''*''), Ch (CHR ''b'')]
       = str ''ab''
   \<and> final_cleanup [Ch (CHR '' ''), Ch (CHR ''a''), Ch (CHR 0x00), Ch (CHR ''b''), Ch (CHR '' '')] = str ''ab''
   \<and> \<not> is_space (hd (final_cleanup [Ch (CHR '' ''), Ch (CHR ''a''), Ch (CHR 0x00), Ch (CHR ''b''), Ch (CHR '' '')]))
   \<and> \<not> is_space (last (final_cleanup [Ch (CHR '' ''), Ch (CHR ''a''), Ch (CHR 0x00), Ch (CHR ''b''), Ch (CHR '' '')]))"
proof -
  have h: "\<forall>t. Ch (CHR 0x00) \<notin> set t \<longrightarrow> Ch (CHR 0x00) \<notin> set (nfkc_ascii t)"
    by (simp add: nfkc_ascii_def)
  have a: "Ch (CHR 0x00) \<notin> set (clean_srs nfkc_ascii [Ch (CHR ''a''), Ch (CHR 0x00), Ch (CHR ''*''), Ch (CHR ''*''), Ch (CHR ''b'')])"
    using normalisation_steps [of nfkc_ascii "[Ch (CHR ''a''), Ch (CHR 0x00), Ch (CHR ''*''), Ch (CHR ''*''), Ch (CHR ''b'')]",
        THEN conjunct2, THEN conjunct2, THEN conjunct2, THEN conjunct1] h by (rule mp)
  have c: "clean_srs nfkc_ascii [Ch (CHR ''a''), Ch (CHR 0x00), Ch (CHR ''*''), Ch (CHR ''*''), Ch (CHR ''b'')]
       = str ''ab''"
    by (simp add: clean_srs_def nfkc_ascii_def remove_nul_def)
  have f: "final_cleanup [Ch (CHR '' ''), Ch (CHR ''a''), Ch (CHR 0x00), Ch (CHR ''b''), Ch (CHR '' '')] = str ''ab''"
    by (simp add: final_cleanup_def text_eval)
  have "final_cleanup [Ch (CHR '' ''), Ch (CHR ''a''), Ch (CHR 0x00), Ch (CHR ''b''), Ch (CHR '' '')] = []
        \<or> (\<not> is_space (hd (final_cleanup [Ch (CHR '' ''), Ch (CHR ''a''), Ch (CHR 0x00), Ch (CHR ''b''), Ch (CHR '' '')]))
            \<and> \<not> is_space (last (final_cleanup [Ch (CHR '' ''), Ch (CHR ''a''), Ch (CHR 0x00), Ch (CHR ''b''), Ch (CHR '' '')])))"
    by (rule normalisation_steps [of _ "[Ch (CHR '' ''), Ch (CHR ''a''), Ch (CHR 0x00), Ch (CHR ''b''), Ch (CHR '' '')]",
          THEN conjunct2, THEN conjunct2, THEN conjunct1])
  then show ?thesis using a c f by auto
qed

text \<open>
  C8 as stated fails for the normalisation of the extractor: the blanks around the text
  stay.
\<close>

theorem extractor_text_not_trimmed:
  "clean_srs nfkc_ascii (str '' a '') = str '' a '' \<and> is_space (hd (clean_srs nfkc_ascii (str '' a '')))
   \<and> is_space (last (clean_srs nfkc_ascii (str '' a '')))"
  by (simp add: clean_srs_def nfkc_ascii_def remove_nul_def is_space_def)

section \<open>Requests sent by the batch loops\<close>

lemma create_issue_sent:
  assumes "create_issue env tracker sent summary description labels = (r, sent')"
  shows "length sent \<le> length sent' \<and> length sent' \<le> Suc (length sent)"
proof (cases "check_env env")
  case (Some e)
  then show ?thesis using assms by (simp add: create_issue_def)
next
  case None
  define request where "request = \<lparr> url = rev (dropWhile (\<lambda>c. c = Ch (CHR ''/'')) (rev (the (JIRA_URL env))))
                                  @ str ''/rest/api/3/issue'',
                           project_key = the (JIRA_PROJECT_KEY env),
                           req_summary = take 255 (clean_text summary),
                           req_description = clean_text description,
                           issuetype = str ''Story'',
                           req_labels = (case labels of None \<Rightarrow> [] | Some ls \<Rightarrow> ls) \<rparr>"
  have "sent' = sent @ [request]"
    using assms None unfolding create_issue_def Let_def request_def [symmetric]
    by (simp split: sum.splits if_splits)
  then show ?thesis by simp
qed


lemma call_create_issue_sent:
  assumes "call_create_issue env tracker sent kwargs = (r, sent')"
  shows "length sent \<le> length sent' \<and> length sent' \<le> Suc (length sent)"
proof (cases "filter (\<lambda>k. k \<notin> set [str ''summary'', str ''description'', str ''labels'']) (map fst kwargs)")
  case (Cons k ks)
  then have "sent' = sent" using assms unfolding call_create_issue_def by simp
  then show ?thesis by simp
next
  case Nil
  show ?thesis
  proof (cases "map_of kwargs (str ''summary'')")
    case None
    then have "sent' = sent" using assms Nil unfolding call_create_issue_def by simp
    then show ?thesis by simp
  next
    case (Some v)
    show ?thesis
    proof (cases v)
      case (KStr summary)
      then have "create_issue env tracker sent summary
                 (case map_of kwargs (str ''description'') of Some (KStr d) \<Rightarrow> d | _ \<Rightarrow> [])
                 (case map_of kwargs (str ''labels'') of Some (KList ls) \<Rightarrow> Some ls | _ \<Rightarrow> None)
               = (r, sent')"
        using assms Nil Some unfolding call_create_issue_def by simp
      then show ?thesis by (rule create_issue_sent)
    next
      case (KList ls)
      then have "sent' = sent" using assms Nil Some unfolding call_create_issue_def by simp
      then show ?thesis by simp
    qed
  qed
qed


lemma send_selected_loop_counts:
  "send_selected_loop env tracker items created failed sent = (Inr (Batch created' failed'), sent')
     \<Longrightarrow> length created' + length failed' = length created + length failed + length items
         \<and> length sent' \<le> length sent + length items"
proof (induction items arbitrary: created failed sent)
  case Nil
  then show ?case by simp
next
  case (Cons it rest)
  show ?case
  proof (cases "strip (get_or it (str ''user_story'') []) = []")
    case True
    then have "send_selected_loop env tracker rest created (failed @ [([], str ''Empty story'')]) sent
                 = (Inr (Batch created' failed'), sent')"
      using Cons.prems by (simp add: Let_def)
    from Cons.IH [OF this] show ?thesis by simp
  next
    case False
    obtain r s1 where c: "call_create_issue env tracker sent
                   [(str ''summary'', KStr (strip (get_or it (str ''user_story'') []))),
                    (str ''description'', KStr (strip (get_or it (str ''user_story'') []))),
                    (str ''classification'', KStr (get_or it (str ''classification'') (str ''Feature'')))] = (r, s1)"
      by (rule prod.exhaust)
    have s1: "length s1 \<le> Suc (length sent)" using call_create_issue_sent [OF c] by simp
    have step: "send_selected_loop env tracker (it # rest) created failed sent =
        (case r of Inl e \<Rightarrow> (Inl e, s1)
         | Inr (Created k s) \<Rightarrow> send_selected_loop env tracker rest (created @ [(k, s)]) failed s1
         | Inr (Failed err) \<Rightarrow> send_selected_loop env tracker rest created
                       (failed @ [(strip (get_or it (str ''user_story'') []), err)]) s1)"
      using False by (simp only: send_selected_loop.simps Let_def c if_False prod.case)
    show ?thesis
    proof (cases r)
      case (Inl e)
      then show ?thesis using Cons.prems step by simp
    next
      case (Inr res)
      show ?thesis
      proof (cases res)
        case (Created k s)
        then have "send_selected_loop env tracker rest (created @ [(k, s)]) failed s1
                     = (Inr (Batch created' failed'), sent')"
          using Cons.prems step Inr by simp
        from Cons.IH [OF this] show ?thesis using s1 by simp
      next
        case (Failed err)
        then have "send_selected_loop env tracker rest created
                       (failed @ [(strip (get_or it (str ''user_story'') []), err)]) s1
                     = (Inr (Batch created' failed'), sent')"
          using Cons.prems step Inr by simp
        from Cons.IH [OF this] show ?thesis using s1 by simp
      qed
    qed
  qed
qed


lemma send_classifications_loop_counts:
  "send_classifications_loop env tracker items created failed sent
       = (Inr (Batch created' failed'), sent')
     \<Longrightarrow> length created' + length failed' = length created + length failed + length items
         \<and> length sent' \<le> length sent + length items"
proof (induction items arbitrary: created failed sent)
  case Nil
  then show ?case by simp
next
  case (Cons it rest)
  show ?case
  proof (cases "strip (get_or it (str ''review'') []) = []")
    case True
    then have "send_classifications_loop env tracker rest created
                 (failed @ [([], str ''Empty review'')]) sent
                 = (Inr (Batch created' failed'), sent')"
      using Cons.prems by (simp add: Let_def)
    from Cons.IH [OF this] show ?thesis by simp
  next
    case False
    have "\<exists>kw. send_classifications_loop env tracker (it # rest) created failed sent =
        (case call_create_issue env tracker sent kw of
           (Inl e, s1) \<Rightarrow> (Inl e, s1)
         | (Inr (Created k s), s1) \<Rightarrow>
             send_classifications_loop env tracker rest (created @ [(k, s)]) failed s1
         | (Inr (Failed err), s1) \<Rightarrow>
             send_classifications_loop env tracker rest created
               (failed @ [(strip (get_or it (str ''review'') []), err)]) s1)"
      using False
      by (simp only: send_classifications_loop.simps Let_def if_False) (rule exI, rule refl)
    then obtain kw where step0: "send_classifications_loop env tracker (it # rest) created failed sent =
        (case call_create_issue env tracker sent kw of
           (Inl e, s1) \<Rightarrow> (Inl e, s1)
         | (Inr (Created k s), s1) \<Rightarrow>
             send_classifications_loop env tracker rest (created @ [(k, s)]) failed s1
         | (Inr (Failed err), s1) \<Rightarrow>
             send_classifications_loop env tracker rest created
               (failed @ [(strip (get_or it (str ''review'') []), err)]) s1)"
      by blast
    obtain r s1 where c: "call_create_issue env tracker sent kw = (r, s1)"
      by (rule prod.exhaust)
    have s1: "length s1 \<le> Suc (length sent)" using call_create_issue_sent [OF c] by simp
    have step: "send_classifications_loop env tracker (it # rest) created failed sent =
        (case r of Inl e \<Rightarrow> (Inl e, s1)
         | Inr (Created k s) \<Rightarrow>
             send_classifications_loop env tracker rest (created @ [(k, s)]) failed s1
         | Inr (Failed err) \<Rightarrow> send_classifications_loop env tracker rest created
                       (failed @ [(strip (get_or it (str ''review'') []), err)]) s1)"
      unfolding step0 c by simp
    show ?thesis
    proof (cases r)
      case (Inl e)
      then show ?thesis using Cons.prems step by simp
    next
      case (Inr res)
      show ?thesis
      proof (cases res)
        case (Created k s)
        then have "send_classifications_loop env tracker rest (created @ [(k, s)]) failed s1
                     = (Inr (Batch created' failed'), sent')"
          using Cons.prems step Inr by simp
        from Cons.IH [OF this] show ?thesis using s1 by simp
      next
        case (Failed err)
        then have "send_classifications_loop env tracker rest created
                       (failed @ [(strip (get_or it (str ''review'') []), err)]) s1
                     = (Inr (Batch created' failed'), sent')"
          using Cons.prems step Inr by simp
        from Cons.IH [OF this] show ?thesis using s1 by simp
      qed
    qed
  qed
qed



section \<open>Failures inside a batch (C9)\<close>

lemmas jira_eval = get_or_def call_create_issue_def create_issue_def check_env_def truthy_def
  clean_text_def jira_send_selected_def jira_send_selected_classifications_def jira_create_def
  labels_for_item_def demo_env_def demo_tracker_def

text \<open>
  C9, at the batch of the claim: one well-formed item and one item with an empty summary.
  \<open>jira_send_selected\<close> calls \<open>create_issue\<close> with the keyword \<open>classification\<close>, which is
  not a parameter: the call raises \<open>TypeError\<close>, nothing catches it, and no list is
  returned, whatever the environment and the tracker. \<open>jira_create\<close> passes \<open>issuetype\<close>,
  catches the same exception for each item, and reports both items as failed.
  \<open>jira_send_selected_classifications\<close> passes the parameters of \<open>create_issue\<close>, and
  returns one created and one failed entry.
\<close>

theorem batch_example_aborts:
  "jira_send_selected env tracker
     [[str ''user_story'' \<mapsto> str ''As a user, I want to log in so that I can see my data.'',
       str ''classification'' \<mapsto> str ''Feature''],
      [str ''user_story'' \<mapsto> []]]
     = (Inl (TypeError (str ''create_issue() got an unexpected keyword argument ''
                          @ [Ch (CHR 0x27)] @ str ''classification'' @ [Ch (CHR 0x27)])), [])
   \<and> jira_create env tracker
       [\<lparr>review = str ''App crashes on start'', classification = str ''Bug'', reasoning = None\<rparr>,
        \<lparr>review = [], classification = str ''Bug'', reasoning = None\<rparr>]
     = (([], [(str ''App crashes on start'',
               str ''create_issue() got an unexpected keyword argument ''
                 @ [Ch (CHR 0x27)] @ str ''issuetype'' @ [Ch (CHR 0x27)]),
              ([], str ''create_issue() got an unexpected keyword argument ''
                 @ [Ch (CHR 0x27)] @ str ''issuetype'' @ [Ch (CHR 0x27)])]), [])
   \<and> fst (jira_send_selected_classifications demo_env demo_tracker
       [[str ''review'' \<mapsto> str ''App crashes on start'', str ''classification'' \<mapsto> str ''Bug''],
        [str ''review'' \<mapsto> []]])
     = Inr (Batch [(Some (str ''REQ-1''), str ''[BUG] App crashes on start'')] [([], str ''Empty review'')])"
  by (simp add: jira_eval text_eval Let_def)



section \<open>The limit of ten items (C10)\<close>

text \<open>
  C10, as amended. Both endpoints answer a payload of more than 10 items with an error
  object and send nothing to the tracker; so they do for an empty payload, with another
  message. A payload of 1 to 10 items goes to the loop over the items; when the loop returns
  its two lists, every item is in one of them, and at most one request per item was
  sent.
\<close>

theorem batch_size_guard:
  "(length items > 10 \<longrightarrow>
      jira_send_selected env tracker items
        = (Inr (ErrorObj (str ''Cannot send more than 10 stories at once'')), [])
      \<and> jira_send_selected_classifications env tracker items
        = (Inr (ErrorObj (str ''Cannot send more than 10 items at once'')), []))
   \<and> (items = [] \<longrightarrow>
      jira_send_selected env tracker items = (Inr (ErrorObj (str ''No stories provided'')), [])
      \<and> jira_send_selected_classifications env tracker items
        = (Inr (ErrorObj (str ''No items provided'')), []))
   \<and> (items \<noteq> [] \<and> length items \<le> 10 \<longrightarrow>
      jira_send_selected env tracker items = send_selected_loop env tracker items [] [] []
      \<and> jira_send_selected_classifications env tracker items
        = send_classifications_loop env tracker items [] [] [])
   \<and> (\<forall>created failed sent.
        items \<noteq> [] \<and> length items \<le> 10
        \<and> (jira_send_selected env tracker items = (Inr (Batch created failed), sent)
           \<or> jira_send_selected_classifications env tracker items
                = (Inr (Batch created failed), sent))
        \<longrightarrow> length created + length failed = length items \<and> length sent \<le> length items)"
proof (intro conjI allI impI)
  assume "length items > 10"
  then show "jira_send_selected env tracker items
        = (Inr (ErrorObj (str ''Cannot send more than 10 stories at once'')), [])"
    and "jira_send_selected_classifications env tracker items
        = (Inr (ErrorObj (str ''Cannot send more than 10 items at once'')), [])"
    by (auto simp: jira_send_selected_def jira_send_selected_classifications_def)
next
  assume "items = []"
  then show "jira_send_selected env tracker items = (Inr (ErrorObj (str ''No stories provided'')), [])"
    and "jira_send_selected_classifications env tracker items
        = (Inr (ErrorObj (str ''No items provided'')), [])"
    by (simp_all add: jira_send_selected_def jira_send_selected_classifications_def)
next
  assume "items \<noteq> [] \<and> length items \<le> 10"
  then show "jira_send_selected env tracker items = send_selected_loop env tracker items [] [] []"
    and "jira_send_selected_classifications env tracker items
        = send_classifications_loop env tracker items [] [] []"
    by (simp_all add: jira_send_selected_def jira_send_selected_classifications_def)
next
  fix created failed sent
  assume a: "items \<noteq> [] \<and> length items \<le> 10
        \<and> (jira_send_selected env tracker items = (Inr (Batch created failed), sent)
           \<or> jira_send_selected_classifications env tracker items
                = (Inr (Batch created failed), sent))"
  have "jira_send_selected env tracker items = send_selected_loop env tracker items [] [] []"
    and "jira_send_selected_classifications env tracker items
           = send_classifications_loop env tracker items [] [] []"
    using a by (simp_all add: jira_send_selected_def jira_send_selected_classifications_def)
  then have "send_selected_loop env tracker items [] [] [] = (Inr (Batch created failed), sent)
             \<or> send_classifications_loop env tracker items [] [] []
                  = (Inr (Batch created failed), sent)"
    using a by simp
  then have "length created + length failed = length items \<and> length sent \<le> length items"
    using send_selected_loop_counts [of env tracker items "[]" "[]" "[]" created failed sent]
      send_classifications_loop_counts [of env tracker items "[]" "[]" "[]" created failed sent]
    by auto
  then show "length created + length failed = length items" and "length sent \<le> length items"
    by simp_all
qed

text \<open>
  The implications of \<open>batch_size_guard\<close> at eleven items, at no item, and at a batch of
  two.
\<close>

theorem batch_size_guard_witness:
  "length (replicate 11 (Map.empty :: item)) > 10
   \<and> jira_send_selected demo_env demo_tracker (replicate 11 Map.empty)
        = (Inr (ErrorObj (str ''Cannot send more than 10 stories at once'')), [])
   \<and> jira_send_selected_classifications demo_env demo_tracker (replicate 11 Map.empty)
        = (Inr (ErrorObj (str ''Cannot send more than 10 items at once'')), [])
   \<and> jira_send_selected demo_env demo_tracker [] = (Inr (ErrorObj (str ''No stories provided'')), [])
   \<and> fst (jira_send_selected_classifications demo_env demo_tracker
         [[str ''review'' \<mapsto> str ''App crashes on start'', str ''classification'' \<mapsto> str ''Bug''],
          [str ''review'' \<mapsto> []]])
       = Inr (Batch [(Some (str ''REQ-1''), str ''[BUG] App crashes on start'')] [([], str ''Empty review'')])
   \<and> length [(Some (str ''REQ-1''), str ''[BUG] App crashes on start'')] + length [([], str ''Empty review'')]
       = length [[str ''review'' \<mapsto> str ''App crashes on start'', str ''classification'' \<mapsto> str ''Bug''],
                 [str ''review'' \<mapsto> []]]"
proof -
  have l: "length (replicate 11 (Map.empty :: item)) > 10" by simp
  have big: "jira_send_selected demo_env demo_tracker (replicate 11 Map.empty)
        = (Inr (ErrorObj (str ''Cannot send more than 10 stories at once'')), [])
      \<and> jira_send_selected_classifications demo_env demo_tracker (replicate 11 Map.empty)
        = (Inr (ErrorObj (str ''Cannot send more than 10 items at once'')), [])"
    using batch_size_guard [of "replicate 11 Map.empty" demo_env demo_tracker, THEN conjunct1] l
    by (rule mp)
  have e: "jira_send_selected demo_env demo_tracker [] = (Inr (ErrorObj (str ''No stories provided'')), [])"
    using batch_size_guard [of "[]" demo_env demo_tracker, THEN conjunct2, THEN conjunct1]
    by simp
  obtain sent where r: "jira_send_selected_classifications demo_env demo_tracker
         [[str ''review'' \<mapsto> str ''App crashes on start'', str ''classification'' \<mapsto> str ''Bug''],
          [str ''review'' \<mapsto> []]]
       = (Inr (Batch [(Some (str ''REQ-1''), str ''[BUG] App crashes on start'')] [([], str ''Empty review'')]),
          sent)"
    by (simp add: jira_eval text_eval Let_def)
  have "length [(Some (str ''REQ-1''), str ''[BUG] App crashes on start'')] + length [([], str ''Empty review'')]
       = length [[str ''review'' \<mapsto> str ''App crashes on start'', str ''classification'' \<mapsto> str ''Bug''],
                 [str ''review'' \<mapsto> []]]"
    using batch_size_guard [of "[[str ''review'' \<mapsto> str ''App crashes on start'', str ''classification'' \<mapsto> str ''Bug''],
          [str ''review'' \<mapsto> []]]" demo_env demo_tracker,
        THEN conjunct2, THEN conjunct2, THEN conjunct2, rule_format,
        of "[(Some (str ''REQ-1''), str ''[BUG] App crashes on start'')]" "[([], str ''Empty review'')]" sent]
      r by simp
  then show ?thesis using l big e r by simp
qed

text \<open>
  C10 as stated fails for the empty payload: it has at most 10 items, and the answer is the
  error object, not the result of the loop over no item.
\<close>

theorem empty_payload_rejected:
  "length ([] :: item list) \<le> 10
   \<and> jira_send_selected demo_env demo_tracker [] = (Inr (ErrorObj (str ''No stories provided'')), [])
   \<and> send_selected_loop demo_env demo_tracker [] [] [] [] = (Inr (Batch [] []), [])
   \<and> jira_send_selected_classifications demo_env demo_tracker []
        = (Inr (ErrorObj (str ''No items provided'')), [])
   \<and> send_classifications_loop demo_env demo_tracker [] [] [] [] = (Inr (Batch [] []), [])"
  by (simp add: jira_send_selected_def jira_send_selected_classifications_def)

end
